theory Spec2Isabelle
  imports Complex_Main "HOL-Library.Sublist" "HOL-Library.Char_ord" "HOL-Library.List_Lexorder"
begin

section \<open>Strings as the program sees them\<close>

text \<open>
  A string is a list of characters; one character stands for one code unit in the range
  0 to 255. The helpers below are the string methods of the host language that the
  sources call: \<open>trim\<close>, \<open>trimEnd\<close>, \<open>startsWith\<close>, \<open>split\<close>, \<open>join\<close> and
  \<open>replace\<close> of a line break.
\<close>

definition isWhiteSpace :: "char \<Rightarrow> bool" where
  "isWhiteSpace c \<longleftrightarrow> c \<in> {CHR 0x09, CHR 0x0A, CHR 0x0B, CHR 0x0C, CHR 0x0D, CHR 0x20, CHR 0xA0}"

definition trimStart :: "string \<Rightarrow> string" where
  "trimStart s = dropWhile isWhiteSpace s"

definition trimEnd :: "string \<Rightarrow> string" where
  "trimEnd s = rev (dropWhile isWhiteSpace (rev s))"

definition trim :: "string \<Rightarrow> string" where
  "trim s = trimEnd (trimStart s)"

fun startsWith :: "string \<Rightarrow> string \<Rightarrow> bool" where
  "startsWith s [] = True"
| "startsWith [] (p # ps) = False"
| "startsWith (c # cs) (p # ps) = (c = p \<and> startsWith cs ps)"

text \<open>\<open>s.split('\n')\<close>: the pieces between line feeds; never the empty list.\<close>

fun splitLF :: "string \<Rightarrow> string list" where
  "splitLF [] = [[]]"
| "splitLF (c # cs) =
     (if c = CHR 0x0A then [] # splitLF cs
      else (case splitLF cs of [] \<Rightarrow> [[c]] | l # ls \<Rightarrow> (c # l) # ls))"

text \<open>\<open>lines.join('\n')\<close>.\<close>

fun joinLF :: "string list \<Rightarrow> string" where
  "joinLF [] = []"
| "joinLF [l] = l"
| "joinLF (l # m # ls) = l @ CHR 0x0A # joinLF (m # ls)"

text \<open>\<open>s.replace(/\r\n/g, '\n')\<close>.\<close>

fun replaceCRLF :: "string \<Rightarrow> string" where
  "replaceCRLF (c # d # cs) =
     (if c = CHR 0x0D \<and> d = CHR 0x0A then CHR 0x0A # replaceCRLF cs
      else c # replaceCRLF (d # cs))"
| "replaceCRLF cs = cs"



section \<open>Unified diff parser (unifiedDiff.ts)\<close>

definition isDigit :: "char \<Rightarrow> bool" where
  "isDigit c \<longleftrightarrow> CHR ''0'' \<le> c \<and> c \<le> CHR ''9''"

definition digitVal :: "char \<Rightarrow> nat" where
  "digitVal c = of_char c - of_char CHR ''0''"

text \<open>\<open>Number(digits)\<close> on a string of decimal digits.\<close>

definition numberOfDigits :: "string \<Rightarrow> nat" where
  "numberOfDigits ds = foldl (\<lambda>n c. 10 * n + digitVal c) 0 ds"

text \<open>\<open>(\d+)\<close>: the longest non-empty run of digits and what follows it.\<close>

definition takeDigits :: "string \<Rightarrow> (string \<times> string) option" where
  "takeDigits s =
     (let ds = takeWhile isDigit s in
      if ds = [] then None else Some (ds, dropWhile isDigit s))"











section \<open>Storage path resolver (workspaceReviewStore.ts)\<close>

definition DEFAULT_STORAGE_PATH :: string where
  "DEFAULT_STORAGE_PATH = ''.code-review''"

text \<open>\<open>s.split('/')\<close> and \<open>segments.join('/')\<close>.\<close>

fun splitSlash :: "string \<Rightarrow> string list" where
  "splitSlash [] = [[]]"
| "splitSlash (c # cs) =
     (if c = CHR ''/'' then [] # splitSlash cs
      else (case splitSlash cs of [] \<Rightarrow> [[c]] | l # ls \<Rightarrow> (c # l) # ls))"

fun joinSlash :: "string list \<Rightarrow> string" where
  "joinSlash [] = []"
| "joinSlash [l] = l"
| "joinSlash (l # m # ls) = l @ CHR ''/'' # joinSlash (m # ls)"

text \<open>
  \<open>path.posix.normalize\<close> is a function of the runtime library. It walks the segments
  between slashes: an empty segment and \<open>.\<close> are skipped; \<open>..\<close> removes the segment
  before it unless there is none or it is \<open>..\<close> itself, in which case \<open>..\<close> is kept
  when the path is relative; the result is \<open>.\<close> when nothing is left, and a trailing
  slash is kept.
\<close>

definition normalizeStep :: "bool \<Rightarrow> string list \<Rightarrow> string \<Rightarrow> string list" where
  "normalizeStep allowAboveRoot res seg =
     (if seg = [] \<or> seg = ''.'' then res
      else if seg = ''..'' then
        (if res \<noteq> [] \<and> last res \<noteq> ''..'' then butlast res
         else if allowAboveRoot then res @ [''..''] else res)
      else res @ [seg])"

definition normalizeString :: "string \<Rightarrow> bool \<Rightarrow> string list" where
  "normalizeString path allowAboveRoot = foldl (normalizeStep allowAboveRoot) [] (splitSlash path)"

definition posixNormalize :: "string \<Rightarrow> string" where
  "posixNormalize path =
     (if path = [] then ''.''
      else
        let isAbsolute = (hd path = CHR ''/'');
            trailingSeparator = (last path = CHR ''/'');
            p = joinSlash (normalizeString path (\<not> isAbsolute))
        in if p = [] then (if isAbsolute then ''/'' else if trailingSeparator then ''./'' else ''.'')
           else (if isAbsolute then ''/'' else []) @ p @ (if trailingSeparator then ''/'' else []))"

text \<open>\<open>/^[A-Za-z]:\//.test(s)\<close>.\<close>

definition isAsciiLetter :: "char \<Rightarrow> bool" where
  "isAsciiLetter c \<longleftrightarrow> (CHR ''A'' \<le> c \<and> c \<le> CHR ''Z'') \<or> (CHR ''a'' \<le> c \<and> c \<le> CHR ''z'')"

fun hasDrivePrefix :: "string \<Rightarrow> bool" where
  "hasDrivePrefix (a # b # c # cs) = (isAsciiLetter a \<and> b = CHR '':'' \<and> c = CHR ''/'')"
| "hasDrivePrefix cs = False"

text \<open>\<open>s.replace(/\\/g, '/')\<close>.\<close>

definition backslashesToSlashes :: "string \<Rightarrow> string" where
  "backslashesToSlashes s = map (\<lambda>c. if c = CHR 0x5C then CHR ''/'' else c) s"

text \<open>\<open>s.replace(/^\.\/+/, '')\<close> and \<open>s.replace(/\/+$/, '')\<close>.\<close>

fun stripLeadingDotSlash :: "string \<Rightarrow> string" where
  "stripLeadingDotSlash (a # b # cs) =
     (if a = CHR ''.'' \<and> b = CHR ''/'' then dropWhile (\<lambda>c. c = CHR ''/'') cs else a # b # cs)"
| "stripLeadingDotSlash cs = cs"

definition stripTrailingSlashes :: "string \<Rightarrow> string" where
  "stripTrailingSlashes s = rev (dropWhile (\<lambda>c. c = CHR ''/'') (rev s))"

text \<open>
  \<open>normalizeStoragePath\<close>. The argument is the configured value when it is a string;
  any other value is read as the empty string by the source and gives the default.
\<close>

definition normalizeStoragePath :: "string \<Rightarrow> string" where
  "normalizeStoragePath v =
     (let raw = trim v in
      if raw = [] then DEFAULT_STORAGE_PATH
      else if CHR 0x00 \<in> set raw then DEFAULT_STORAGE_PATH
      else
        let normalizedSlashes = backslashesToSlashes raw in
        if startsWith normalizedSlashes ''/'' \<or> startsWith normalizedSlashes ''//'' then DEFAULT_STORAGE_PATH
        else if hasDrivePrefix normalizedSlashes then DEFAULT_STORAGE_PATH
        else
          let normalized = stripLeadingDotSlash (posixNormalize normalizedSlashes);
              trimmed = stripTrailingSlashes normalized
          in if trimmed = [] \<or> trimmed = ''.'' \<or> trimmed = ''..'' \<or> startsWith trimmed ''../''
             then DEFAULT_STORAGE_PATH
             else trimmed)"

text \<open>
  Two properties of a list of path segments, used to state what the normalisation
  produces: every segment is a proper name, and \<open>..\<close> segments only lead.
\<close>

definition cleanSegs :: "string list \<Rightarrow> bool" where
  "cleanSegs segs \<longleftrightarrow> (\<forall>s\<in>set segs. s \<noteq> [] \<and> s \<noteq> ''.'' \<and> CHR ''/'' \<notin> set s)"

definition dotsFirst :: "string list \<Rightarrow> bool" where
  "dotsFirst segs \<longleftrightarrow> (\<exists>k r. segs = replicate k ''..'' @ r \<and> ''..'' \<notin> set r)"

text \<open>\<open>s.includes(sub)\<close>.\<close>

fun includesStr :: "string \<Rightarrow> string \<Rightarrow> bool" where
  "includesStr [] sub = (sub = [])"
| "includesStr (c # cs) sub = (startsWith (c # cs) sub \<or> includesStr cs sub)"

section \<open>Anchor relocation (localCodeReviewManager.ts)\<close>

record PersistedRange =
  startLine :: nat
  startCharacter :: nat
  endLine :: nat
  endCharacter :: nat

record PersistedAnchorContext =
  before :: "string list"
  selection :: string
  after :: "string list"



























section \<open>JSON text\<close>

text \<open>
  \<open>JSON.stringify\<close> and \<open>JSON.parse\<close> belong to the runtime. They are modelled after
  the JSON grammar: a value is \<open>null\<close>, a truth value, a number, a string, an array
  or an object whose members keep their order. The program prints natural numbers only;
  the parser reads any JSON number, as a rational. Rounding to a double is not modelled.
\<close>

datatype 'n json =
    JNull
  | JBool bool
  | JNum 'n
  | JStr string
  | JArr "'n json list"
  | JObj "(string \<times> 'n json) list"

definition dquote :: char where "dquote = CHR 0x22"
definition backslash :: char where "backslash = CHR 0x5C"
definition LF :: char where "LF = CHR 0x0A"

definition hexDigit :: "nat \<Rightarrow> char" where
  "hexDigit d = (if d < 10 then char_of (48 + d) else char_of (87 + d))"

definition hexVal :: "char \<Rightarrow> nat option" where
  "hexVal c =
     (if CHR ''0'' \<le> c \<and> c \<le> CHR ''9'' then Some (of_char c - 48)
      else if CHR ''a'' \<le> c \<and> c \<le> CHR ''f'' then Some (of_char c - 87)
      else if CHR ''A'' \<le> c \<and> c \<le> CHR ''F'' then Some (of_char c - 55)
      else None)"

text \<open>The quoting of one character inside a JSON string, as \<open>JSON.stringify\<close> does it.\<close>

definition escapeJSONChar :: "char \<Rightarrow> string" where
  "escapeJSONChar c =
     (if c = dquote then [backslash, dquote]
      else if c = backslash then [backslash, backslash]
      else if c = CHR 0x08 then [backslash, CHR ''b'']
      else if c = CHR 0x0C then [backslash, CHR ''f'']
      else if c = CHR 0x0A then [backslash, CHR ''n'']
      else if c = CHR 0x0D then [backslash, CHR ''r'']
      else if c = CHR 0x09 then [backslash, CHR ''t'']
      else if (of_char c :: nat) < 32 then
        [backslash, CHR ''u'', CHR ''0'', CHR ''0'', hexDigit (of_char c div 16), hexDigit (of_char c mod 16)]
      else [c])"

definition quoteJSONString :: "string \<Rightarrow> string" where
  "quoteJSONString s = dquote # concat (map escapeJSONChar s) @ [dquote]"

function showNat :: "nat \<Rightarrow> string" where
  "showNat n = (if n < 10 then [char_of (48 + n)] else showNat (n div 10) @ [char_of (48 + n mod 10)])"
  by pat_completeness auto
termination
  by (relation "measure id") auto

declare showNat.simps [simp del]

definition spaces :: "nat \<Rightarrow> string" where
  "spaces n = replicate n CHR '' ''"

text \<open>
  \<open>JSON.stringify(value, null, 2)\<close> at indentation \<open>ind\<close>: an empty array or object is
  printed closed; otherwise each element or member stands on a line of its own, two
  spaces deeper, the lines separated by a comma.
\<close>

fun stringify :: "nat \<Rightarrow> nat json \<Rightarrow> string"
  and stringifyElems :: "nat \<Rightarrow> nat json list \<Rightarrow> string"
  and stringifyMembers :: "nat \<Rightarrow> (string \<times> nat json) list \<Rightarrow> string" where
  "stringify ind JNull = ''null''"
| "stringify ind (JBool b) = (if b then ''true'' else ''false'')"
| "stringify ind (JNum n) = showNat n"
| "stringify ind (JStr s) = quoteJSONString s"
| "stringify ind (JArr []) = ''[]''"
| "stringify ind (JArr (x # xs)) =
     ''['' @ [LF] @ stringifyElems (ind + 2) (x # xs) @ [LF] @ spaces ind @ '']''"
| "stringify ind (JObj []) = ''{}''"
| "stringify ind (JObj (m # ms)) =
     ''{'' @ [LF] @ stringifyMembers (ind + 2) (m # ms) @ [LF] @ spaces ind @ ''}''"
| "stringifyElems ind [] = []"
| "stringifyElems ind [x] = spaces ind @ stringify ind x"
| "stringifyElems ind (x # y # ys) =
     spaces ind @ stringify ind x @ '','' @ [LF] @ stringifyElems ind (y # ys)"
| "stringifyMembers ind [] = []"
| "stringifyMembers ind [(k, v)] = spaces ind @ quoteJSONString k @ '': '' @ stringify ind v"
| "stringifyMembers ind ((k, v) # m # ms) =
     spaces ind @ quoteJSONString k @ '': '' @ stringify ind v @ '','' @ [LF]
       @ stringifyMembers ind (m # ms)"

definition JSON_stringify :: "nat json \<Rightarrow> string" where
  "JSON_stringify v = stringify 0 v"

text \<open>The parser. White space between tokens is space, tab, line feed and carriage return.\<close>

definition isJsonWs :: "char \<Rightarrow> bool" where
  "isJsonWs c \<longleftrightarrow> c = CHR '' '' \<or> c = CHR 0x09 \<or> c = CHR 0x0A \<or> c = CHR 0x0D"

definition skipWs :: "string \<Rightarrow> string" where
  "skipWs s = dropWhile isJsonWs s"

text \<open>
  Four hexadecimal digits of a \<open>\u\<close> escape. Strings here hold code units below 256
  only; of a larger code unit the escape keeps the low eight bits.
\<close>

definition hex4 :: "string \<Rightarrow> char option" where
  "hex4 s =
     (case s of
        a # b # c # d # _ \<Rightarrow>
          (case (hexVal a, hexVal b, hexVal c, hexVal d) of
             (Some x, Some y, Some z, Some w) \<Rightarrow> Some (char_of (((x * 16 + y) * 16 + z) * 16 + w))
           | _ \<Rightarrow> None)
      | _ \<Rightarrow> None)"

definition unescapeChar :: "char \<Rightarrow> char option" where
  "unescapeChar e =
     (if e = dquote then Some dquote
      else if e = backslash then Some backslash
      else if e = CHR ''/'' then Some CHR ''/''
      else if e = CHR ''b'' then Some (CHR 0x08)
      else if e = CHR ''f'' then Some (CHR 0x0C)
      else if e = CHR ''n'' then Some (CHR 0x0A)
      else if e = CHR ''r'' then Some (CHR 0x0D)
      else if e = CHR ''t'' then Some (CHR 0x09)
      else None)"

text \<open>The characters of a string after its opening quote, up to the closing quote.\<close>

function parseStringBody :: "string \<Rightarrow> (string \<times> string) option" where
  "parseStringBody s =
     (case s of
        [] \<Rightarrow> None
      | c # cs \<Rightarrow>
          if c = dquote then Some ([], cs)
          else if c = backslash then
            (case cs of
               [] \<Rightarrow> None
             | e # r \<Rightarrow>
                 if e = CHR ''u'' then
                   (case hex4 r of
                      None \<Rightarrow> None
                    | Some ch \<Rightarrow>
                        (case parseStringBody (drop 4 r) of
                           None \<Rightarrow> None
                         | Some (str, rest) \<Rightarrow> Some (ch # str, rest)))
                 else
                   (case unescapeChar e of
                      None \<Rightarrow> None
                    | Some ch \<Rightarrow>
                        (case parseStringBody r of
                           None \<Rightarrow> None
                         | Some (str, rest) \<Rightarrow> Some (ch # str, rest))))
          else if (of_char c :: nat) < 32 then None
          else
            (case parseStringBody cs of
               None \<Rightarrow> None
             | Some (str, rest) \<Rightarrow> Some (c # str, rest)))"
  by pat_completeness auto
termination
  by (relation "measure length") auto

declare parseStringBody.simps [simp del]

text \<open>
  A number: an optional minus, an integer part without a leading zero, an optional
  fraction and an optional exponent.
\<close>

definition parseFraction :: "string \<Rightarrow> (rat \<times> string) option" where
  "parseFraction s =
     (case s of
        c # cs \<Rightarrow>
          (if c = CHR ''.'' then
             (case takeDigits cs of
                None \<Rightarrow> None
              | Some (ds, r) \<Rightarrow> Some (of_nat (numberOfDigits ds) / 10 ^ length ds, r))
           else Some (0, s))
      | [] \<Rightarrow> Some (0, s))"

definition parseExponent :: "string \<Rightarrow> (int \<times> string) option" where
  "parseExponent s =
     (case s of
        c # cs \<Rightarrow>
          (if c = CHR ''e'' \<or> c = CHR ''E'' then
             (let (neg, cs') = (case cs of
                                  d # ds \<Rightarrow> if d = CHR ''-'' then (True, ds)
                                            else if d = CHR ''+'' then (False, ds) else (False, cs)
                                | [] \<Rightarrow> (False, cs))
              in case takeDigits cs' of
                   None \<Rightarrow> None
                 | Some (ds, r) \<Rightarrow>
                     Some (if neg then - int (numberOfDigits ds) else int (numberOfDigits ds), r))
           else Some (0, s))
      | [] \<Rightarrow> Some (0, s))"

definition scale10 :: "rat \<Rightarrow> int \<Rightarrow> rat" where
  "scale10 x e = (if e < 0 then x / 10 ^ nat (- e) else x * 10 ^ nat e)"

definition parseNumber :: "string \<Rightarrow> (rat \<times> string) option" where
  "parseNumber s =
     (let (neg, s1) = (case s of c # cs \<Rightarrow> if c = CHR ''-'' then (True, cs) else (False, s)
                               | [] \<Rightarrow> (False, s))
      in case takeDigits s1 of
           None \<Rightarrow> None
         | Some (ds, r1) \<Rightarrow>
             if hd ds = CHR ''0'' \<and> length ds > 1 then None
             else
               (case parseFraction r1 of
                  None \<Rightarrow> None
                | Some (fr, r2) \<Rightarrow>
                    (case parseExponent r2 of
                       None \<Rightarrow> None
                     | Some (e, r3) \<Rightarrow>
                         (let v = scale10 (of_nat (numberOfDigits ds) + fr) e
                          in Some (if neg then - v else v, r3)))))"

text \<open>
  The recursive part carries a bound on the number of nested calls, which falls with
  every call; \<open>JSON_parse\<close> starts it high enough for the text it is given.
\<close>

fun parseValue :: "nat \<Rightarrow> string \<Rightarrow> (rat json \<times> string) option"
  and parseElems :: "nat \<Rightarrow> string \<Rightarrow> (rat json list \<times> string) option"
  and parseMembers :: "nat \<Rightarrow> string \<Rightarrow> ((string \<times> rat json) list \<times> string) option" where
  "parseValue 0 s = None"
| "parseValue (Suc n) s =
     (case s of
        [] \<Rightarrow> None
      | c # cs \<Rightarrow>
          if c = CHR ''{'' then
            (case skipWs cs of
               [] \<Rightarrow> None
             | d # r \<Rightarrow>
                 if d = CHR ''}'' then Some (JObj [], r)
                 else (case parseMembers n (d # r) of
                         None \<Rightarrow> None
                       | Some (ms, r') \<Rightarrow> Some (JObj ms, r')))
          else if c = CHR ''['' then
            (case skipWs cs of
               [] \<Rightarrow> None
             | d # r \<Rightarrow>
                 if d = CHR '']'' then Some (JArr [], r)
                 else (case parseElems n (d # r) of
                         None \<Rightarrow> None
                       | Some (vs, r') \<Rightarrow> Some (JArr vs, r')))
          else if c = dquote then
            (case parseStringBody cs of
               None \<Rightarrow> None
             | Some (str, r) \<Rightarrow> Some (JStr str, r))
          else if c = CHR ''-'' \<or> isDigit c then
            (case parseNumber s of
               None \<Rightarrow> None
             | Some (x, r) \<Rightarrow> Some (JNum x, r))
          else if startsWith s ''true'' then Some (JBool True, drop 4 s)
          else if startsWith s ''false'' then Some (JBool False, drop 5 s)
          else if startsWith s ''null'' then Some (JNull, drop 4 s)
          else None)"
| "parseElems 0 s = None"
| "parseElems (Suc n) s =
     (case parseValue n s of
        None \<Rightarrow> None
      | Some (v, r) \<Rightarrow>
          (case skipWs r of
             [] \<Rightarrow> None
           | d # r' \<Rightarrow>
               if d = CHR '','' then
                 (case parseElems n (skipWs r') of
                    None \<Rightarrow> None
                  | Some (vs, r'') \<Rightarrow> Some (v # vs, r''))
               else if d = CHR '']'' then Some ([v], r')
               else None))"
| "parseMembers 0 s = None"
| "parseMembers (Suc n) s =
     (case s of
        [] \<Rightarrow> None
      | c # cs \<Rightarrow>
          if c \<noteq> dquote then None
          else
            (case parseStringBody cs of
               None \<Rightarrow> None
             | Some (k, r) \<Rightarrow>
                 (case skipWs r of
                    [] \<Rightarrow> None
                  | d # r1 \<Rightarrow>
                      if d \<noteq> CHR '':'' then None
                      else
                        (case parseValue n (skipWs r1) of
                           None \<Rightarrow> None
                         | Some (v, r2) \<Rightarrow>
                             (case skipWs r2 of
                                [] \<Rightarrow> None
                              | e # r3 \<Rightarrow>
                                  if e = CHR '','' then
                                    (case parseMembers n (skipWs r3) of
                                       None \<Rightarrow> None
                                     | Some (ms, r4) \<Rightarrow> Some ((k, v) # ms, r4))
                                  else if e = CHR ''}'' then Some ([(k, v)], r3)
                                  else None)))))"

text \<open>\<open>JSON.parse(text)\<close>; \<open>None\<close> stands for the syntax error it throws.\<close>

definition JSON_parse :: "string \<Rightarrow> rat json option" where
  "JSON_parse text =
     (case parseValue (2 * length text + 1) (skipWs text) of
        None \<Rightarrow> None
      | Some (v, r) \<Rightarrow> if skipWs r = [] then Some v else None)"

text \<open>
  Reading a property of a parsed value: \<open>value.key\<close> is the last member with that key
  when the value is an object, and \<open>undefined\<close> (\<open>None\<close>) otherwise.
\<close>

definition getProp :: "'n json \<Rightarrow> string \<Rightarrow> 'n json option" where
  "getProp v key = (case v of JObj ms \<Rightarrow> map_of (rev ms) key | _ \<Rightarrow> None)"

text \<open>
  A bound on the nesting of calls the parser needs for a printed value, and the
  condition on what may follow a printed number: no character that would continue it.
\<close>

fun jfuel :: "'n json \<Rightarrow> nat"
  and jfuelElems :: "'n json list \<Rightarrow> nat"
  and jfuelMembers :: "(string \<times> 'n json) list \<Rightarrow> nat" where
  "jfuel (JArr xs) = 1 + jfuelElems xs"
| "jfuel (JObj ms) = 1 + jfuelMembers ms"
| "jfuel JNull = 1"
| "jfuel (JBool b) = 1"
| "jfuel (JNum n) = 1"
| "jfuel (JStr s) = 1"
| "jfuelElems [] = 0"
| "jfuelElems (x # xs) = 1 + jfuel x + jfuelElems xs"
| "jfuelMembers [] = 0"
| "jfuelMembers ((k, v) # ms) = 1 + jfuel v + jfuelMembers ms"

definition numberEnds :: "string \<Rightarrow> bool" where
  "numberEnds rest \<longleftrightarrow>
     (case rest of [] \<Rightarrow> True
      | c # cs \<Rightarrow> \<not> isDigit c \<and> c \<noteq> CHR ''.'' \<and> c \<noteq> CHR ''e'' \<and> c \<noteq> CHR ''E'')"

section \<open>Thread codec (persistedTypes.ts, workspaceReviewStore.ts)\<close>

text \<open>
  The persisted types. A field that may be \<open>undefined\<close> or \<open>null\<close> is an \<open>option\<close>.
  \<open>schemaVersion\<close> and \<open>kind\<close> have one value each in the source's types and are
  constants here. The thread record extends the metadata record by the comments, as the
  source's \<open>Omit<PersistedThread, 'comments'>\<close> says. Some fields carry a longer name
  than in the source because records cannot share field names.
\<close>

definition SCHEMA_VERSION :: nat where "SCHEMA_VERSION = 1"

datatype PersistedThreadStatus = StatusOpen | StatusResolved

definition statusString :: "PersistedThreadStatus \<Rightarrow> string" where
  "statusString st = (case st of StatusOpen \<Rightarrow> ''open'' | StatusResolved \<Rightarrow> ''resolved'')"

record PersistedComment =
  commentId :: string
  author :: string
  bodyMarkdown :: string
  commentCreatedAt :: string

record PersistedGit =
  baseRef :: "string option"
  hunkHeader :: "string option"
  hunkPatch :: "string option"

record PersistedAnchor =
  anchorContext :: "PersistedAnchorContext option"
  anchorGit :: "PersistedGit option"

record PersistedThreadTarget =
  workspaceRelativePath :: string
  targetRange :: "PersistedRange option"
  anchor :: PersistedAnchor

record PersistedThreadMeta =
  threadId :: string
  target :: PersistedThreadTarget
  status :: PersistedThreadStatus
  createdAt :: string
  updatedAt :: string

record PersistedThread = PersistedThreadMeta +
  comments :: "PersistedComment list"

definition THREAD_META_TAG :: string where "THREAD_META_TAG = ''local-code-review-thread''"
definition COMMENT_TAG :: string where "COMMENT_TAG = ''local-code-review-comment''"
definition PATCH_TAG :: string where "PATCH_TAG = ''local-code-review-patch''"

definition metaOpenLine :: string where "metaOpenLine = ''<'' @ THREAD_META_TAG @ ''>''"
definition metaCloseLine :: string where "metaCloseLine = ''</'' @ THREAD_META_TAG @ ''>''"

subsection \<open>Reading the metadata object\<close>

definition parseNonNegativeInteger :: "rat json option \<Rightarrow> nat option" where
  "parseNonNegativeInteger v =
     (case v of
        Some (JNum x) \<Rightarrow> if of_int \<lfloor>x\<rfloor> = x \<and> 0 \<le> x then Some (nat \<lfloor>x\<rfloor>) else None
      | _ \<Rightarrow> None)"

definition parseString :: "'n json option \<Rightarrow> string option" where
  "parseString v = (case v of Some (JStr s) \<Rightarrow> Some s | _ \<Rightarrow> None)"

definition parseNonEmptyString :: "'n json option \<Rightarrow> string option" where
  "parseNonEmptyString v =
     (case parseString v of
        None \<Rightarrow> None
      | Some str \<Rightarrow> if trim str = [] then None else Some str)"

definition jsonStringOf :: "'n json \<Rightarrow> string option" where
  "jsonStringOf v = (case v of JStr s \<Rightarrow> Some s | _ \<Rightarrow> None)"

definition parseStringArray :: "'n json option \<Rightarrow> string list option" where
  "parseStringArray v =
     (case v of
        Some (JArr xs) \<Rightarrow>
          if list_all (\<lambda>x. jsonStringOf x \<noteq> None) xs then Some (map (\<lambda>x. the (jsonStringOf x)) xs) else None
      | _ \<Rightarrow> None)"

definition isRecord :: "'n json option \<Rightarrow> bool" where
  "isRecord v = (case v of Some (JObj ms) \<Rightarrow> True | _ \<Rightarrow> False)"

definition propOf :: "'n json option \<Rightarrow> string \<Rightarrow> 'n json option" where
  "propOf v key = (case v of Some j \<Rightarrow> getProp j key | None \<Rightarrow> None)"

text \<open>\<open>parsePersistedRange\<close>: \<open>null\<close> is the answer for an absent range and for a malformed one.\<close>

definition parsePersistedRange :: "rat json option \<Rightarrow> PersistedRange option" where
  "parsePersistedRange v =
     (if v = None \<or> v = Some JNull then None
      else if \<not> isRecord v then None
      else
        (case (parseNonNegativeInteger (propOf v ''startLine''),
               parseNonNegativeInteger (propOf v ''startCharacter''),
               parseNonNegativeInteger (propOf v ''endLine''),
               parseNonNegativeInteger (propOf v ''endCharacter'')) of
           (Some sl, Some sc, Some el, Some ec) \<Rightarrow>
             Some \<lparr>startLine = sl, startCharacter = sc, endLine = el, endCharacter = ec\<rparr>
         | _ \<Rightarrow> None))"

definition parsePersistedAnchorContext :: "'n json option \<Rightarrow> PersistedAnchorContext option" where
  "parsePersistedAnchorContext v =
     (if \<not> isRecord v then None
      else
        (case (parseStringArray (propOf v ''before''), parseString (propOf v ''selection''),
               parseStringArray (propOf v ''after'')) of
           (Some b, Some s, Some a) \<Rightarrow> Some \<lparr>before = b, selection = s, after = a\<rparr>
         | _ \<Rightarrow> None))"

definition parsePersistedThreadStatus :: "'n json option \<Rightarrow> 'n json option \<Rightarrow> PersistedThreadStatus" where
  "parsePersistedThreadStatus v legacyState =
     (if v = Some (JStr ''open'') then StatusOpen
      else if v = Some (JStr ''resolved'') then StatusResolved
      else if legacyState = Some (JStr ''resolved'') then StatusResolved
      else StatusOpen)"

definition truthy :: "string option \<Rightarrow> bool" where
  "truthy s = (case s of Some x \<Rightarrow> x \<noteq> [] | None \<Rightarrow> False)"

definition parseAnchor :: "rat json option \<Rightarrow> PersistedAnchor" where
  "parseAnchor raw =
     (if isRecord raw \<and> propOf raw ''kind'' = Some (JStr ''lineRange'') then
        (let ctx = parsePersistedAnchorContext (propOf raw ''context'');
             g = (if isRecord (propOf raw ''git'') then
                    Some \<lparr>baseRef = parseString (propOf (propOf raw ''git'') ''baseRef''),
                          hunkHeader = parseString (propOf (propOf raw ''git'') ''hunkHeader''),
                          hunkPatch = parseString (propOf (propOf raw ''git'') ''hunkPatch'')\<rparr>
                  else None)
         in \<lparr>anchorContext = ctx,
             anchorGit = (case g of
                            None \<Rightarrow> None
                          | Some gg \<Rightarrow> if truthy (baseRef gg) \<or> truthy (hunkHeader gg) \<or> truthy (hunkPatch gg)
                                       then Some gg else None)\<rparr>)
      else \<lparr>anchorContext = None, anchorGit = None\<rparr>)"

text \<open>
  \<open>parsePersistedThreadMeta\<close>; \<open>now\<close> is the time the source takes from the clock for a
  missing \<open>createdAt\<close>.
\<close>

definition parsePersistedThreadMeta :: "string \<Rightarrow> rat json option \<Rightarrow> PersistedThreadMeta option" where
  "parsePersistedThreadMeta now v =
     (if \<not> isRecord v \<or> propOf v ''schemaVersion'' \<noteq> Some (JNum (of_nat SCHEMA_VERSION)) then None
      else case parseNonEmptyString (propOf v ''id'') of
        None \<Rightarrow> None
      | Some ident \<Rightarrow>
          if \<not> isRecord (propOf v ''target'') then None
          else (case parseNonEmptyString (propOf (propOf v ''target'') ''workspaceRelativePath'') of
            None \<Rightarrow> None
          | Some path \<Rightarrow>
              (let rng = parsePersistedRange (propOf (propOf v ''target'') ''range'');
                   anch = parseAnchor (propOf (propOf v ''target'') ''anchor'');
                   st = parsePersistedThreadStatus (propOf v ''status'') (propOf v ''state'');
                   created = (case parseString (propOf v ''createdAt'') of Some c \<Rightarrow> c | None \<Rightarrow> now);
                   updated = (case parseString (propOf v ''updatedAt'') of Some u \<Rightarrow> u | None \<Rightarrow> created)
               in Some \<lparr>threadId = ident,
                        target = \<lparr>workspaceRelativePath = path, targetRange = rng, anchor = anch\<rparr>,
                        status = st, createdAt = created, updatedAt = updated\<rparr>)))"

subsection \<open>Writing a thread\<close>

definition formatRangeLabel :: "PersistedRange option \<Rightarrow> string" where
  "formatRangeLabel r =
     (case r of
        None \<Rightarrow> ''File''
      | Some rg \<Rightarrow>
          (let s = startLine rg + 1; e = endLine rg + 1
           in if s = e then ''L'' @ showNat s else ''L'' @ showNat s @ ''-L'' @ showNat e))"

definition optMember :: "string \<Rightarrow> 'a option \<Rightarrow> ('a \<Rightarrow> nat json) \<Rightarrow> (string \<times> nat json) list" where
  "optMember key v f = (case v of None \<Rightarrow> [] | Some x \<Rightarrow> [(key, f x)])"

definition rangeJson :: "PersistedRange \<Rightarrow> nat json" where
  "rangeJson r = JObj [(''startLine'', JNum (startLine r)), (''startCharacter'', JNum (startCharacter r)),
                       (''endLine'', JNum (endLine r)), (''endCharacter'', JNum (endCharacter r))]"

definition contextJson :: "PersistedAnchorContext \<Rightarrow> nat json" where
  "contextJson c = JObj [(''before'', JArr (map JStr (before c))), (''selection'', JStr (selection c)),
                         (''after'', JArr (map JStr (after c)))]"

text \<open>
  The metadata object built at the top of \<open>serializeThreadMarkdown\<close>: the thread without
  its comments, the patch deleted from the git data, and the git data dropped unless it
  has a base or a header. A property is printed unless its value is \<open>undefined\<close>.
\<close>

definition metaGit :: "PersistedGit option \<Rightarrow> PersistedGit option" where
  "metaGit g =
     (case g of
        None \<Rightarrow> None
      | Some gg \<Rightarrow> if truthy (baseRef gg) \<or> truthy (hunkHeader gg)
                   then Some (gg\<lparr>hunkPatch := None\<rparr>) else None)"

definition gitJson :: "PersistedGit \<Rightarrow> nat json" where
  "gitJson g = JObj (optMember ''baseRef'' (baseRef g) JStr @ optMember ''hunkHeader'' (hunkHeader g) JStr
                     @ optMember ''hunkPatch'' (hunkPatch g) JStr)"

definition metaJson :: "'a PersistedThreadMeta_scheme \<Rightarrow> nat json" where
  "metaJson t =
     JObj [(''schemaVersion'', JNum SCHEMA_VERSION),
           (''id'', JStr (threadId t)),
           (''target'', JObj [
              (''workspaceRelativePath'', JStr (workspaceRelativePath (target t))),
              (''range'', (case targetRange (target t) of None \<Rightarrow> JNull | Some r \<Rightarrow> rangeJson r)),
              (''anchor'', JObj ([(''kind'', JStr ''lineRange'')]
                 @ optMember ''context'' (anchorContext (anchor (target t))) contextJson
                 @ optMember ''git'' (metaGit (anchorGit (anchor (target t)))) gitJson))]),
           (''status'', JStr (statusString (status t))),
           (''createdAt'', JStr (createdAt t)),
           (''updatedAt'', JStr (updatedAt t))]"

text \<open>\<open>s.replaceAll(pat, rep)\<close> for a non-empty pattern.\<close>

function replaceAll :: "string \<Rightarrow> string \<Rightarrow> string \<Rightarrow> string" where
  "replaceAll pat rep s =
     (case s of
        [] \<Rightarrow> []
      | c # cs \<Rightarrow>
          if pat \<noteq> [] \<and> startsWith s pat then rep @ replaceAll pat rep (drop (length pat) s)
          else c # replaceAll pat rep cs)"
  by pat_completeness auto
termination
  by (relation "measure (\<lambda>(p, r, s). length s)") auto

declare replaceAll.simps [simp del]

definition escapeXmlAttr :: "string \<Rightarrow> string" where
  "escapeXmlAttr v =
     replaceAll ''>'' ''&gt;'' (replaceAll ''<'' ''&lt;'' (replaceAll [dquote] ''&quot;'' (replaceAll ''&'' ''&amp;'' v)))"

definition unescapeXmlAttr :: "string \<Rightarrow> string" where
  "unescapeXmlAttr v =
     replaceAll ''&amp;'' ''&'' (replaceAll ''&gt;'' ''>'' (replaceAll ''&lt;'' ''<'' (replaceAll ''&quot;'' [dquote] v)))"

text \<open>What the four replacements of \<open>escapeXmlAttr\<close> make of one character.\<close>

definition xmlEscapeChar :: "char \<Rightarrow> string" where
  "xmlEscapeChar c =
     (if c = CHR ''&'' then ''&amp;''
      else if c = dquote then ''&quot;''
      else if c = CHR ''<'' then ''&lt;''
      else if c = CHR ''>'' then ''&gt;''
      else [c])"

definition commentMetaLine :: "PersistedComment \<Rightarrow> string" where
  "commentMetaLine c =
     ''<'' @ COMMENT_TAG @ '' id='' @ [dquote] @ escapeXmlAttr (commentId c) @ [dquote]
     @ '' author='' @ [dquote] @ escapeXmlAttr (author c) @ [dquote]
     @ '' createdAt='' @ [dquote] @ escapeXmlAttr (commentCreatedAt c) @ [dquote] @ ''/>''"

definition commentLines :: "PersistedComment \<Rightarrow> string list" where
  "commentLines c =
     [[], commentMetaLine c, []]
     @ (let body = trimEnd (bodyMarkdown c)
        in if body \<noteq> [] then splitLF (replaceCRLF body) else [])"

definition contextLines :: "PersistedAnchorContext option \<Rightarrow> string list" where
  "contextLines c =
     (case c of
        None \<Rightarrow> []
      | Some ctx \<Rightarrow>
          [[], ''## Context'', [], ''### Before'', ''```text''] @ before ctx @ [''```'']
          @ [[], ''### Selection'', ''```text''] @ splitLF (replaceCRLF (selection ctx)) @ [''```'']
          @ [[], ''### After'', ''```text''] @ after ctx @ [''```''])"

definition gitLines :: "PersistedGit option \<Rightarrow> string list" where
  "gitLines g =
     (case g of
        None \<Rightarrow> []
      | Some gg \<Rightarrow>
          if truthy (baseRef gg) \<or> truthy (hunkHeader gg) then
            [[], ''## Git'']
            @ (if truthy (baseRef gg) then [''- baseRef: '' @ the (baseRef gg)] else [])
            @ (if truthy (hunkHeader gg) then [''- hunkHeader: '' @ the (hunkHeader gg)] else [])
          else [])"

definition patchLines :: "PersistedGit option \<Rightarrow> string list" where
  "patchLines g =
     (case (case g of None \<Rightarrow> None | Some gg \<Rightarrow> map_option trimEnd (hunkPatch gg)) of
        None \<Rightarrow> []
      | Some patch \<Rightarrow>
          if patch \<noteq> [] then
            [[], ''## Patch'', ''<'' @ PATCH_TAG @ '' lang='' @ [dquote] @ ''diff'' @ [dquote] @ ''/>'', [], ''```diff'']
            @ splitLF (replaceCRLF patch) @ [''```'']
          else [])"

definition headerLabel :: "'a PersistedThreadMeta_scheme \<Rightarrow> string" where
  "headerLabel t =
     workspaceRelativePath (target t) @ '':'' @ formatRangeLabel (targetRange (target t))
     @ [CHR '' '', CHR 0xB7, CHR '' ''] @ statusString (status t)"

definition serializeLines :: "PersistedThread \<Rightarrow> string list" where
  "serializeLines t =
     [metaOpenLine, JSON_stringify (metaJson t), metaCloseLine,
      [], ''# '' @ headerLabel t]
     @ contextLines (anchorContext (anchor (target t)))
     @ gitLines (anchorGit (anchor (target t)))
     @ patchLines (anchorGit (anchor (target t)))
     @ [[], ''## Comments'']
     @ concat (map commentLines (comments t))"

definition serializeThreadMarkdown :: "PersistedThread \<Rightarrow> string" where
  "serializeThreadMarkdown t = joinLF (serializeLines t) @ [LF]"

subsection \<open>Reading a thread file\<close>

definition isWordChar :: "char \<Rightarrow> bool" where
  "isWordChar c \<longleftrightarrow> isAsciiLetter c \<or> isDigit c \<or> c = CHR ''_''"

text \<open>
  \<open>/\bname="([^"]*)"/.exec(raw)\<close>: the leftmost place where the pattern \<open>name="\<close> starts
  at a word boundary and a closing quote follows; the group is the text up to that quote.
  \<open>prevWord\<close> says whether the character before the current place is a word character.
\<close>

fun attrSearch :: "string \<Rightarrow> bool \<Rightarrow> string \<Rightarrow> string option" where
  "attrSearch pat prevWord [] = None"
| "attrSearch pat prevWord (c # cs) =
     (if \<not> prevWord \<and> startsWith (c # cs) pat \<and> dquote \<in> set (drop (length pat) (c # cs))
      then Some (takeWhile (\<lambda>x. x \<noteq> dquote) (drop (length pat) (c # cs)))
      else attrSearch pat (isWordChar c) cs)"

definition attrMatch :: "string \<Rightarrow> string \<Rightarrow> string option" where
  "attrMatch name raw = attrSearch (name @ ''='' @ [dquote]) False raw"

definition orElse :: "string \<Rightarrow> string \<Rightarrow> string" where
  "orElse s fallback = (if s \<noteq> [] then s else fallback)"

definition isCommentMarker :: "string \<Rightarrow> bool" where
  "isCommentMarker line = startsWith (trim line) (''<'' @ COMMENT_TAG)"

definition parseCommentAt :: "PersistedThreadMeta \<Rightarrow> nat \<Rightarrow> string \<Rightarrow> string list \<Rightarrow> PersistedComment" where
  "parseCommentAt meta commentIndex raw bodyLines =
     (let fallbackId = threadId meta @ '':'' @ showNat commentIndex;
          fallbackCreatedAt = orElse (updatedAt meta) (createdAt meta);
          cid = orElse (trim (case attrMatch ''id'' raw of Some g \<Rightarrow> g | None \<Rightarrow> [])) fallbackId;
          auth = orElse (trim (unescapeXmlAttr (case attrMatch ''author'' raw of Some g \<Rightarrow> g | None \<Rightarrow> []))) ''unknown'';
          created = orElse (trim (case attrMatch ''createdAt'' raw of Some g \<Rightarrow> g | None \<Rightarrow> [])) fallbackCreatedAt
      in \<lparr>commentId = cid, author = auth, bodyMarkdown = trimEnd (joinLF bodyLines),
          commentCreatedAt = created\<rparr>)"

text \<open>The loop over the lines after the metadata block that collects the comments.\<close>

function parseComments :: "PersistedThreadMeta \<Rightarrow> nat \<Rightarrow> string list \<Rightarrow> PersistedComment list" where
  "parseComments meta commentIndex ls =
     (case ls of
        [] \<Rightarrow> []
      | l # rest \<Rightarrow>
          if \<not> isCommentMarker l then parseComments meta commentIndex rest
          else
            (let rest1 = (case rest of [] \<Rightarrow> [] | b # bs \<Rightarrow> if b = [] then bs else rest);
                 bodyLines = takeWhile (\<lambda>x. \<not> isCommentMarker x) rest1
             in parseCommentAt meta commentIndex (trim l) bodyLines
                # parseComments meta (commentIndex + 1) (dropWhile (\<lambda>x. \<not> isCommentMarker x) rest1)))"
  by pat_completeness auto
termination
proof (relation "measure (\<lambda>(m, i, ls). length ls)", goal_cases)
  case 1 show ?case by simp
next
  case (2 meta commentIndex ls l rest) then show ?case by simp
next
  case (3 meta commentIndex ls l rest rest1 bodyLines)
  have "length (dropWhile (\<lambda>x. \<not> isCommentMarker x) rest1) \<le> length rest1"
    by (rule length_dropWhile_le)
  moreover have "length rest1 \<le> length rest" using 3(3) by (auto split: list.splits if_splits)
  ultimately show ?case using 3(1) by simp
qed

declare parseComments.simps [simp del]

text \<open>
  The patch: after the first line that starts with the patch marker, the first fence
  whose language is \<open>diff\<close> or \<open>patch\<close>, up to the closing fence or the end.
\<close>

definition isPatchMarker :: "string \<Rightarrow> bool" where
  "isPatchMarker line = startsWith (trim line) (''<'' @ PATCH_TAG)"

definition isPatchFence :: "string \<Rightarrow> bool" where
  "isPatchFence line =
     (let fenceLine = trimEnd line
      in startsWith fenceLine ''```'' \<and>
         (trim (drop 3 fenceLine) = ''diff'' \<or> trim (drop 3 fenceLine) = ''patch''))"

definition extractPatch :: "string list \<Rightarrow> string option" where
  "extractPatch ls =
     (case dropWhile (\<lambda>l. \<not> isPatchMarker l) ls of
        [] \<Rightarrow> None
      | marker # following \<Rightarrow>
          (case dropWhile (\<lambda>l. \<not> isPatchFence l) following of
             [] \<Rightarrow> None
           | fence # body \<Rightarrow>
               (let patch = trimEnd (joinLF (takeWhile (\<lambda>l. trimEnd l \<noteq> ''```'') body))
                in if patch \<noteq> [] then Some patch else None)))"

definition mergePatch :: "PersistedThreadMeta \<Rightarrow> string option \<Rightarrow> PersistedThreadMeta" where
  "mergePatch meta patch =
     (case patch of
        None \<Rightarrow> meta
      | Some p \<Rightarrow>
          (let existing = (case anchorGit (anchor (target meta)) of
                             Some g \<Rightarrow> g
                           | None \<Rightarrow> \<lparr>baseRef = None, hunkHeader = None, hunkPatch = None\<rparr>)
           in meta\<lparr>target := (target meta)\<lparr>anchor := (anchor (target meta))
                     \<lparr>anchorGit := Some (existing\<lparr>hunkPatch := Some p\<rparr>)\<rparr>\<rparr>\<rparr>))"

text \<open>
  \<open>parseThreadMarkdown\<close>; \<open>None\<close> is the source's \<open>undefined\<close>. The function has no
  other way out: nothing in it throws.
\<close>

definition parseThreadMarkdown :: "string \<Rightarrow> string \<Rightarrow> PersistedThread option" where
  "parseThreadMarkdown now markdown =
     (let lines = splitLF (replaceCRLF markdown) in
      case dropWhile (\<lambda>l. trim l \<noteq> metaOpenLine) lines of
        [] \<Rightarrow> None
      | openLine # afterOpen \<Rightarrow>
          (let metaLines = takeWhile (\<lambda>l. trim l \<noteq> metaCloseLine) afterOpen in
           case dropWhile (\<lambda>l. trim l \<noteq> metaCloseLine) afterOpen of
             [] \<Rightarrow> None
           | closeLine # rest \<Rightarrow>
               (case JSON_parse (trim (joinLF metaLines)) of
                  None \<Rightarrow> None
                | Some metaObject \<Rightarrow>
                    (case parsePersistedThreadMeta now (Some metaObject) of
                       None \<Rightarrow> None
                     | Some meta0 \<Rightarrow>
                         (let meta = mergePatch meta0 (extractPatch rest)
                          in Some (PersistedThreadMeta.extend meta
                                     (PersistedThread.fields (parseComments meta 0 rest))))))))"

text \<open>
  The metadata of a thread as the metadata block stores it: the thread without its
  comments, its git data reduced as \<open>metaGit\<close> says.
\<close>

definition storedMeta :: "'a PersistedThreadMeta_scheme \<Rightarrow> PersistedThreadMeta" where
  "storedMeta t =
     \<lparr>threadId = threadId t,
      target = \<lparr>workspaceRelativePath = workspaceRelativePath (target t),
                targetRange = targetRange (target t),
                anchor = \<lparr>anchorContext = anchorContext (anchor (target t)),
                          anchorGit = metaGit (anchorGit (anchor (target t)))\<rparr>\<rparr>,
      status = status t, createdAt = createdAt t, updatedAt = updatedAt t\<rparr>"

subsection \<open>Threads that a thread file gives back\<close>

text \<open>
  The parser looks for its markers in every line after the metadata block, also in the
  lines of the context, of the patch and of the comment bodies, which the serializer
  copies into the file as they are. \<open>plainThread\<close> collects what a thread needs for the
  file written for it to be read back as the same thread:

  \<^item> the id and the path are not blank, and the path is one line;
  \<^item> a line of the context is one line and starts neither a comment nor a patch marker;
  \<^item> the git data, if there is any, has a base, a header or a patch; a base or header
    it has is one line, and an empty one only stands beside a non-empty one; the patch
    is not empty, has no white space at its end and no carriage return before a line
    feed, and none of its lines closes the fence or starts a comment marker;
  \<^item> the id and the creation time of a comment are not empty, have no white space at
    their ends, no line feed and none of the characters that \<open>escapeXmlAttr\<close> replaces,
    and the id has no \<open>=\<close>; the author is not empty, has no white space at its ends, no
    line feed and no \<open>=\<close>; the body has no white space at its end, no carriage return
    before a line feed, and no line of it starts a marker;
  \<^item> the file written holds no carriage return before a line feed.
\<close>

definition plainLine :: "string \<Rightarrow> bool" where
  "plainLine l \<longleftrightarrow> LF \<notin> set l \<and> \<not> isCommentMarker l \<and> \<not> isPatchMarker l"

definition plainPatch :: "string \<Rightarrow> bool" where
  "plainPatch p \<longleftrightarrow>
     p \<noteq> [] \<and> trimEnd p = p \<and> replaceCRLF p = p
     \<and> list_all (\<lambda>l. trimEnd l \<noteq> ''```'' \<and> \<not> isCommentMarker l) (splitLF p)"

definition plainGit :: "PersistedGit option \<Rightarrow> bool" where
  "plainGit g =
     (case g of
        None \<Rightarrow> True
      | Some gg \<Rightarrow>
          (truthy (baseRef gg) \<or> truthy (hunkHeader gg) \<or> hunkPatch gg \<noteq> None)
          \<and> (truthy (baseRef gg) \<or> truthy (hunkHeader gg) \<or> (baseRef gg = None \<and> hunkHeader gg = None))
          \<and> (case baseRef gg of None \<Rightarrow> True | Some b \<Rightarrow> LF \<notin> set b)
          \<and> (case hunkHeader gg of None \<Rightarrow> True | Some h \<Rightarrow> LF \<notin> set h)
          \<and> (case hunkPatch gg of None \<Rightarrow> True | Some p \<Rightarrow> plainPatch p))"

definition plainComment :: "PersistedComment \<Rightarrow> bool" where
  "plainComment c \<longleftrightarrow>
     commentId c \<noteq> [] \<and> trim (commentId c) = commentId c
     \<and> escapeXmlAttr (commentId c) = commentId c
     \<and> LF \<notin> set (commentId c) \<and> CHR ''='' \<notin> set (commentId c)
     \<and> author c \<noteq> [] \<and> trim (author c) = author c
     \<and> LF \<notin> set (author c) \<and> CHR ''='' \<notin> set (author c)
     \<and> commentCreatedAt c \<noteq> [] \<and> trim (commentCreatedAt c) = commentCreatedAt c
     \<and> escapeXmlAttr (commentCreatedAt c) = commentCreatedAt c
     \<and> LF \<notin> set (commentCreatedAt c)
     \<and> trimEnd (bodyMarkdown c) = bodyMarkdown c \<and> replaceCRLF (bodyMarkdown c) = bodyMarkdown c
     \<and> list_all (\<lambda>l. \<not> isCommentMarker l \<and> \<not> isPatchMarker l) (splitLF (bodyMarkdown c))"

definition plainThread :: "PersistedThread \<Rightarrow> bool" where
  "plainThread t \<longleftrightarrow>
     trim (threadId t) \<noteq> []
     \<and> trim (workspaceRelativePath (target t)) \<noteq> []
     \<and> LF \<notin> set (workspaceRelativePath (target t))
     \<and> (case anchorContext (anchor (target t)) of
          None \<Rightarrow> True
        | Some c \<Rightarrow> list_all plainLine (before c @ splitLF (replaceCRLF (selection c)) @ after c))
     \<and> plainGit (anchorGit (anchor (target t)))
     \<and> list_all plainComment (comments t)
     \<and> replaceCRLF (serializeThreadMarkdown t) = serializeThreadMarkdown t"

text \<open>
  \<open>quotedLt q s\<close>: every \<open><\<close> of the text \<open>s\<close> has a double quote before it on its line;
  \<open>q\<close> says whether a double quote has been seen on the current line.
\<close>

fun quotedLt :: "bool \<Rightarrow> string \<Rightarrow> bool" where
  "quotedLt q [] = True"
| "quotedLt q (c # cs) =
     (if c = LF then quotedLt False cs
      else if c = dquote then quotedLt True cs
      else if c = CHR ''<'' then q \<and> quotedLt q cs
      else quotedLt q cs)"

text \<open>The lines that \<open>commentLines\<close> writes for the body of a comment that needs no trimming.\<close>

definition bodyLines :: "PersistedComment \<Rightarrow> string list" where
  "bodyLines c = (if bodyMarkdown c \<noteq> [] then splitLF (bodyMarkdown c) else [])"

text \<open>The marker line that \<open>patchLines\<close> writes in front of the patch.\<close>

definition patchMarkerLine :: string where
  "patchMarkerLine = ''<'' @ PATCH_TAG @ '' lang='' @ [dquote] @ ''diff'' @ [dquote] @ ''/>''"

text \<open>
  The serializer writes the body of a comment without the white space at its end;
  \<open>trimBodies\<close> is the thread with every body so trimmed.
\<close>

definition trimBodies :: "PersistedThread \<Rightarrow> PersistedThread" where
  "trimBodies t = t\<lparr>comments := map (\<lambda>c. c\<lparr>bodyMarkdown := trimEnd (bodyMarkdown c)\<rparr>) (comments t)\<rparr>"

section \<open>Review store (workspaceReviewStore.ts)\<close>

record PersistedIndexEntry =
  entryId :: string
  entryFile :: string
  entryRange :: "PersistedRange option"
  entryStatus :: PersistedThreadStatus
  entryUpdatedAt :: string

text \<open>
  The part of the file system the store works on. \<open>threadFiles\<close> are the files of the
  \<open>threads\<close> directory, name and text, in the order the directory lists them.
  \<open>index.json\<close> is modelled by what \<open>readIndex\<close> finds: no file, a file that does not
  hold an index, or the entries it holds. \<open>migrationInProgress\<close> is the field of that
  name. The model covers a store whose legacy root has been moved and whose legacy
  \<open>comments\<close> directory holds no JSON file, so that the first two migrations of
  \<open>ensureInitialized\<close> return at once.
\<close>

datatype indexFile = IndexMissing | IndexUnreadable | IndexEntries "PersistedIndexEntry list"

record storeState =
  threadFiles :: "(string \<times> string) list"
  indexJson :: indexFile
  migrationInProgress :: bool

definition THREAD_MARKDOWN_EXTENSION :: string where "THREAD_MARKDOWN_EXTENSION = ''.md''"

definition getThreadName :: "string \<Rightarrow> string" where
  "getThreadName ident = ident @ THREAD_MARKDOWN_EXTENSION"

definition getLegacyThreadJsonName :: "string \<Rightarrow> string" where
  "getLegacyThreadJsonName ident = ident @ ''.json''"


definition tryDelete :: "string \<Rightarrow> (string \<times> string) list \<Rightarrow> (string \<times> string) list" where
  "tryDelete name fs = filter (\<lambda>(n, t). n \<noteq> name) fs"

definition endsWith :: "string \<Rightarrow> string \<Rightarrow> bool" where
  "endsWith s suf = startsWith (rev s) (rev suf)"



text \<open>
  \<open>readIndex\<close>: no index, or one that does not parse, reads as empty; entries without
  an id or a file are dropped.
\<close>

definition readIndex :: "storeState \<Rightarrow> PersistedIndexEntry list" where
  "readIndex s =
     (case indexJson s of
        IndexEntries es \<Rightarrow> filter (\<lambda>e. entryId e \<noteq> [] \<and> entryFile e \<noteq> []) es
      | _ \<Rightarrow> [])"

definition writeIndex :: "PersistedIndexEntry list \<Rightarrow> storeState \<Rightarrow> storeState" where
  "writeIndex es s = s\<lparr>indexJson := IndexEntries es\<rparr>"

definition ensureIndexFile :: "storeState \<Rightarrow> storeState" where
  "ensureIndexFile s = (if indexJson s = IndexMissing then writeIndex [] s else s)"

text \<open>
  The legacy JSON form of a thread file, read by \<open>parsePersistedThread\<close>; of a comment
  only whether it is an object matters here.
\<close>

definition parsesAsLegacyThread :: "string \<Rightarrow> string \<Rightarrow> bool" where
  "parsesAsLegacyThread now text =
     (case JSON_parse text of
        None \<Rightarrow> False
      | Some v \<Rightarrow> parsePersistedThreadMeta now (Some v) \<noteq> None)"

text \<open>
  \<open>ensureInitialized\<close>, for a store as described above. Its last step,
  \<open>tryMigrateLegacyThreadJsonFiles\<close>, calls \<open>writeThread\<close> for every \<open>.json\<close> file of the
  threads directory that parses as a thread and waits for it. Inside a task of the
  write queue that call is queued behind the running task, which then never completes:
  the result is \<open>None\<close>. Without such a file the step changes nothing.
\<close>

definition hasLegacyThreadJson :: "string \<Rightarrow> storeState \<Rightarrow> bool" where
  "hasLegacyThreadJson now s =
     list_ex (\<lambda>(n, t). endsWith n ''.json'' \<and> parsesAsLegacyThread now t) (threadFiles s)"

definition ensureInitializedInTask :: "string \<Rightarrow> storeState \<Rightarrow> storeState option" where
  "ensureInitializedInTask now s =
     (let s1 = ensureIndexFile s
      in if hasLegacyThreadJson now s1 then None else Some s1)"

definition indexEntryOf :: "PersistedThread \<Rightarrow> PersistedIndexEntry" where
  "indexEntryOf t =
     \<lparr>entryId = threadId t, entryFile = workspaceRelativePath (target t),
      entryRange = targetRange (target t), entryStatus = status t, entryUpdatedAt = updatedAt t\<rparr>"

text \<open>
  \<open>threads.sort((a, b) => a.file.localeCompare(b.file) || a.id.localeCompare(b.id))\<close>.
  \<open>localeCompare\<close> belongs to the runtime and is a parameter \<open>cmp\<close>, negative, zero or
  positive. The array sort is stable; for a comparator that orders the entries its
  result is that of the stable insertion sort below.
\<close>

definition compareEntries ::
  "(string \<Rightarrow> string \<Rightarrow> int) \<Rightarrow> PersistedIndexEntry \<Rightarrow> PersistedIndexEntry \<Rightarrow> int" where
  "compareEntries cmp a b =
     (if cmp (entryFile a) (entryFile b) \<noteq> 0 then cmp (entryFile a) (entryFile b)
      else cmp (entryId a) (entryId b))"

fun insertBy :: "('a \<Rightarrow> 'a \<Rightarrow> int) \<Rightarrow> 'a \<Rightarrow> 'a list \<Rightarrow> 'a list" where
  "insertBy c x [] = [x]"
| "insertBy c x (y # ys) = (if c x y < 0 then x # y # ys else y # insertBy c x ys)"

definition sortBy :: "('a \<Rightarrow> 'a \<Rightarrow> int) \<Rightarrow> 'a list \<Rightarrow> 'a list" where
  "sortBy c xs = foldl (\<lambda>acc x. insertBy c x acc) [] xs"


definition deleteThread :: "string \<Rightarrow> string \<Rightarrow> storeState \<Rightarrow> storeState option" where
  "deleteThread now ident s =
     (case (if \<not> migrationInProgress s then ensureInitializedInTask now s else Some s) of
        None \<Rightarrow> None
      | Some s1 \<Rightarrow>
          (let s2 = s1\<lparr>threadFiles := tryDelete (getThreadName ident) (threadFiles s1)\<rparr>;
               s3 = s2\<lparr>threadFiles := tryDelete (getLegacyThreadJsonName ident) (threadFiles s2)\<rparr>;
               threads = filter (\<lambda>e. entryId e \<noteq> ident) (readIndex s3)
           in Some (writeIndex threads s3)))"

text \<open>
  The index as the specification words it: recomputed from all thread files, one entry
  per file that parses, sorted by file and id.
\<close>

definition recomputeIndex ::
  "(string \<Rightarrow> string \<Rightarrow> int) \<Rightarrow> string \<Rightarrow> storeState \<Rightarrow> PersistedIndexEntry list" where
  "recomputeIndex cmp now s =
     sortBy (compareEntries cmp)
       (concat (map (\<lambda>(n, text).
          if endsWith n THREAD_MARKDOWN_EXTENSION then
            (case parseThreadMarkdown now text of None \<Rightarrow> [] | Some t \<Rightarrow> [indexEntryOf t])
          else []) (threadFiles s)))"

subsection \<open>Relocation of a loaded thread (localCodeReviewManager.ts)\<close>



section \<open>Example values\<close>




definition exThread :: PersistedThread where
  "exThread =
     \<lparr>threadId = ''t1'',
      target = \<lparr>workspaceRelativePath = ''a.ts'',
                targetRange = Some \<lparr>startLine = 0, startCharacter = 3, endLine = 0, endCharacter = 5\<rparr>,
                anchor = \<lparr>anchorContext = Some \<lparr>before = [], selection = ''aa'', after = []\<rparr>,
                          anchorGit = None\<rparr>\<rparr>,
      status = StatusOpen, createdAt = ''2000'', updatedAt = ''2000'', comments = []\<rparr>"


text \<open>A thread with one comment whose author starts with a space, and its metadata.\<close>

definition exMeta :: PersistedThreadMeta where
  "exMeta =
     \<lparr>threadId = ''t1'',
      target = \<lparr>workspaceRelativePath = ''a.ts'', targetRange = None,
                anchor = \<lparr>anchorContext = None, anchorGit = None\<rparr>\<rparr>,
      status = StatusOpen, createdAt = ''2000'', updatedAt = ''2000''\<rparr>"

definition exCommented :: PersistedThread where
  "exCommented =
     PersistedThreadMeta.extend exMeta (PersistedThread.fields
       [\<lparr>commentId = ''c1'', author = '' Bob'', bodyMarkdown = ''hi'', commentCreatedAt = ''2000''\<rparr>])"

text \<open>
  A thread with context, git data with a patch, and two comments; the body of the first
  comment ends with a line feed. And a thread with one comment whose body ends with a
  line feed.
\<close>

definition exFull :: PersistedThread where
  "exFull =
     \<lparr>threadId = ''t2'',
      target = \<lparr>workspaceRelativePath = ''src/a.ts'',
                targetRange = Some \<lparr>startLine = 1, startCharacter = 0, endLine = 2, endCharacter = 4\<rparr>,
                anchor = \<lparr>anchorContext = Some \<lparr>before = [''let x;''], selection = ''a <b>'' @ [LF] @ ''c'', after = []\<rparr>,
                          anchorGit = Some \<lparr>baseRef = Some ''HEAD'', hunkHeader = Some ''@@ -1,2 +1,2 @@'',
                                             hunkPatch = Some (''-a'' @ [LF] @ ''+b'')\<rparr>\<rparr>\<rparr>,
      status = StatusResolved, createdAt = ''2000'', updatedAt = ''2001'',
      comments = [\<lparr>commentId = ''c1'', author = ''A&B'', bodyMarkdown = ''one'' @ [LF, LF] @ ''two'' @ [LF],
                    commentCreatedAt = ''2000''\<rparr>,
                  \<lparr>commentId = ''c2'', author = ''Al'', bodyMarkdown = [], commentCreatedAt = ''2001''\<rparr>]\<rparr>"

definition exTrailing :: PersistedThread where
  "exTrailing =
     PersistedThreadMeta.extend exMeta (PersistedThread.fields
       [\<lparr>commentId = ''c1'', author = ''Bob'', bodyMarkdown = ''hi'' @ [LF], commentCreatedAt = ''2000''\<rparr>])"

section \<open>Properties of the unified diff parser\<close>


section \<open>Properties of the storage path resolver\<close>

lemma splitSlash_nonempty: "splitSlash p \<noteq> []"
  by (induction p) (auto split: list.splits)

lemma splitSlash_noslash: "s \<in> set (splitSlash p) \<Longrightarrow> CHR ''/'' \<notin> set s"
proof (induction p arbitrary: s)
  case Nil then show ?case by simp
next
  case (Cons c cs)
  show ?case
  proof (cases "c = CHR ''/''")
    case True with Cons show ?thesis by auto
  next
    case False
    obtain l ls where sp: "splitSlash cs = l # ls"
      using splitSlash_nonempty[of cs] by (cases "splitSlash cs") auto
    with False Cons.prems have "s = c # l \<or> s \<in> set ls" by auto
    then show ?thesis using Cons.IH[of l] Cons.IH[of s] sp False by auto
  qed
qed

lemma dotsFirst_Nil: "dotsFirst []"
  unfolding dotsFirst_def by (rule exI[of _ 0]) simp

lemma dotsFirst_snoc_dots:
  assumes "dotsFirst res" "res = [] \<or> last res = ''..''"
  shows "dotsFirst (res @ [''..''])"
proof -
  from assms(1) obtain k r where kr: "res = replicate k ''..'' @ r" "''..'' \<notin> set r"
    unfolding dotsFirst_def by blast
  have "r = []"
  proof (rule ccontr)
    assume "r \<noteq> []"
    then have "last res = last r" "last r \<in> set r" using kr by auto
    with assms(2) kr \<open>r \<noteq> []\<close> show False by auto
  qed
  then have "res @ [''..''] = replicate (Suc k) ''..'' @ []"
    using kr by (simp add: replicate_append_same)
  then show ?thesis unfolding dotsFirst_def by (metis empty_iff list.set(1))
qed

lemma dotsFirst_snoc_other:
  assumes "dotsFirst res" "seg \<noteq> ''..''"
  shows "dotsFirst (res @ [seg])"
proof -
  from assms(1) obtain k r where kr: "res = replicate k ''..'' @ r" "''..'' \<notin> set r"
    unfolding dotsFirst_def by blast
  then have "res @ [seg] = replicate k ''..'' @ (r @ [seg])" "''..'' \<notin> set (r @ [seg])"
    using assms(2) by auto
  then show ?thesis unfolding dotsFirst_def by blast
qed

lemma dotsFirst_butlast:
  assumes "dotsFirst res" "res \<noteq> []" "last res \<noteq> ''..''"
  shows "dotsFirst (butlast res)"
proof -
  from assms(1) obtain k r where kr: "res = replicate k ''..'' @ r" "''..'' \<notin> set r"
    unfolding dotsFirst_def by blast
  have "r \<noteq> []"
  proof
    assume "r = []"
    with kr assms(2) have "res = replicate k ''..''" "k \<noteq> 0" by auto
    then have "last res = ''..''" by (metis last_replicate)
    with assms(3) show False by simp
  qed
  then have "butlast res = replicate k ''..'' @ butlast r" using kr by (simp add: butlast_append)
  moreover have "''..'' \<notin> set (butlast r)" using kr(2) by (meson in_set_butlastD)
  ultimately show ?thesis unfolding dotsFirst_def by blast
qed

lemma normalizeStep_inv:
  assumes "cleanSegs res" "dotsFirst res" "CHR ''/'' \<notin> set seg"
  shows "cleanSegs (normalizeStep True res seg) \<and> dotsFirst (normalizeStep True res seg)"
proof -
  have c: "cleanSegs (butlast res)" using assms(1) unfolding cleanSegs_def by (meson in_set_butlastD)
  show ?thesis
    using assms c dotsFirst_snoc_dots[of res] dotsFirst_snoc_other[of res seg] dotsFirst_butlast[of res]
    by (auto simp: normalizeStep_def cleanSegs_def)
qed

lemma normalizeFold_inv:
  assumes "cleanSegs res" "dotsFirst res" "\<forall>s\<in>set segs. CHR ''/'' \<notin> set s"
  shows "cleanSegs (foldl (normalizeStep True) res segs) \<and> dotsFirst (foldl (normalizeStep True) res segs)"
  using assms
proof (induction segs arbitrary: res)
  case Nil then show ?case by simp
next
  case (Cons s segs)
  then show ?case using normalizeStep_inv[of res s] by simp
qed

lemma normalizeString_inv:
  "cleanSegs (normalizeString p True) \<and> dotsFirst (normalizeString p True)"
  unfolding normalizeString_def
  by (rule normalizeFold_inv) (auto simp: cleanSegs_def dotsFirst_Nil dest: splitSlash_noslash)

lemma splitSlash_append_noslash:
  "CHR ''/'' \<notin> set l \<Longrightarrow> splitSlash (l @ CHR ''/'' # rest) = l # splitSlash rest"
  by (induction l) (auto split: list.splits)

lemma splitSlash_noslash_id: "CHR ''/'' \<notin> set l \<Longrightarrow> splitSlash l = [l]"
  by (induction l) (auto split: list.splits)

lemma splitSlash_joinSlash:
  "segs \<noteq> [] \<Longrightarrow> \<forall>s\<in>set segs. CHR ''/'' \<notin> set s \<Longrightarrow> splitSlash (joinSlash segs) = segs"
proof (induction segs rule: joinSlash.induct)
  case 1 then show ?case by simp
next
  case (2 l) then show ?case by (simp add: splitSlash_noslash_id)
next
  case (3 l m ls)
  then show ?case by (simp add: splitSlash_append_noslash)
qed

lemma joinSlash_Cons:
  "joinSlash (l # ls) = l @ (if ls = [] then [] else CHR ''/'' # joinSlash ls)"
  by (cases ls) auto

lemma joinSlash_last:
  "segs \<noteq> [] \<Longrightarrow> last segs \<noteq> [] \<Longrightarrow> joinSlash segs \<noteq> [] \<and> last (joinSlash segs) = last (last segs)"
  by (induction segs rule: joinSlash.induct) auto

lemma stripTrailingSlashes_id:
  "s \<noteq> [] \<Longrightarrow> last s \<noteq> CHR ''/'' \<Longrightarrow> stripTrailingSlashes s = s"
  unfolding stripTrailingSlashes_def by (cases s rule: rev_cases) auto

lemma stripTrailingSlashes_snoc:
  "s \<noteq> [] \<Longrightarrow> last s \<noteq> CHR ''/'' \<Longrightarrow> stripTrailingSlashes (s @ ''/'') = s"
  unfolding stripTrailingSlashes_def by (cases s rule: rev_cases) auto

lemma stripLeadingDotSlash_id:
  "\<not> startsWith s ''./'' \<Longrightarrow> stripLeadingDotSlash s = s"
  by (cases s rule: stripLeadingDotSlash.cases) auto

lemma startsWith_append: "startsWith s p \<Longrightarrow> startsWith (s @ t) p"
  by (induction s p rule: startsWith.induct) auto

lemma startsWith_iff: "startsWith s p \<longleftrightarrow> take (length p) s = p"
  by (induction s p rule: startsWith.induct) auto

lemma cleanSegs_join_no_dotslash:
  assumes "cleanSegs segs" "segs \<noteq> []"
  shows "\<not> startsWith (joinSlash segs @ t) ''./''"
proof -
  obtain l ls where segs: "segs = l # ls" using assms(2) by (cases segs) auto
  then have l: "l \<noteq> []" "l \<noteq> ''.''" "CHR ''/'' \<notin> set l" using assms(1) by (auto simp: cleanSegs_def)
  show ?thesis
  proof (cases l)
    case Nil with l show ?thesis by simp
  next
    case (Cons a l')
    show ?thesis
    proof (cases l')
      case Nil
      with Cons l have "a \<noteq> CHR ''.''" by auto
      then show ?thesis using segs Cons by (simp add: joinSlash_Cons)
    next
      case (Cons b l'')
      with \<open>l = a # l'\<close> l have "b \<noteq> CHR ''/''" by auto
      then show ?thesis using segs Cons \<open>l = a # l'\<close> by (simp add: joinSlash_Cons)
    qed
  qed
qed

lemma dotsFirst_hd:
  assumes "dotsFirst segs" "segs \<noteq> []" "hd segs \<noteq> ''..''"
  shows "''..'' \<notin> set segs"
proof -
  from assms(1) obtain k r where kr: "segs = replicate k ''..'' @ r" "''..'' \<notin> set r"
    unfolding dotsFirst_def by blast
  have "k = 0" using assms(2,3) kr by (cases k) auto
  with kr show ?thesis by simp
qed

lemma joinSlash_dotdot_rejected:
  assumes "segs \<noteq> []" "hd segs = ''..''"
  shows "joinSlash segs = ''..'' \<or> startsWith (joinSlash segs) ''../''"
proof -
  obtain ls where "segs = ''..'' # ls" using assms by (cases segs) auto
  then show ?thesis by (cases ls) auto
qed

lemma normalizeStoragePath_shape:
  "normalizeStoragePath v = DEFAULT_STORAGE_PATH \<or>
   (\<exists>segs. segs \<noteq> [] \<and> cleanSegs segs \<and> ''..'' \<notin> set segs \<and> normalizeStoragePath v = joinSlash segs)"
proof -
  define raw where "raw = trim v"
  define ns where "ns = backslashesToSlashes raw"
  define segs where "segs = normalizeString ns True"
  have inv: "cleanSegs segs" "dotsFirst segs" using normalizeString_inv[of ns] segs_def by auto
  show ?thesis
  proof (cases "raw = [] \<or> CHR 0x00 \<in> set raw \<or> startsWith ns ''/'' \<or> hasDrivePrefix ns")
    case True
    then show ?thesis
      by (auto simp: normalizeStoragePath_def Let_def raw_def ns_def)
  next
    case False
    then have nsne: "ns \<noteq> []" by (simp add: ns_def backslashesToSlashes_def)
    have notabs: "hd ns \<noteq> CHR ''/''" using False nsne by (cases ns) auto
    have sw2: "\<not> startsWith ns ''//''" using False by (cases ns) auto
    have unfold: "normalizeStoragePath v =
        (let trimmed = stripTrailingSlashes (stripLeadingDotSlash (posixNormalize ns))
         in if trimmed = [] \<or> trimmed = ''.'' \<or> trimmed = ''..'' \<or> startsWith trimmed ''../''
            then DEFAULT_STORAGE_PATH else trimmed)"
      using False sw2 by (simp add: normalizeStoragePath_def Let_def raw_def ns_def)
    show ?thesis
    proof (cases "segs = []")
      case True
      then have "posixNormalize ns = ''./'' \<or> posixNormalize ns = ''.''"
        using nsne notabs by (simp add: posixNormalize_def Let_def segs_def)
      then have "normalizeStoragePath v = DEFAULT_STORAGE_PATH"
        unfolding unfold by (auto simp: stripTrailingSlashes_def)
      then show ?thesis by simp
    next
      case sne: False
      have lastne: "last segs \<noteq> []" "CHR ''/'' \<notin> set (last segs)"
        using inv(1) sne by (auto simp: cleanSegs_def)
      have jl: "joinSlash segs \<noteq> []" "last (joinSlash segs) \<noteq> CHR ''/''"
        using joinSlash_last[OF sne lastne(1)] lastne by (auto dest: last_in_set)
      define t where "t = (if last ns = CHR ''/'' then ''/'' else [])"
      have pn: "posixNormalize ns = joinSlash segs @ t"
        using nsne notabs jl(1) by (simp add: posixNormalize_def Let_def segs_def t_def)
      have "stripLeadingDotSlash (posixNormalize ns) = joinSlash segs @ t"
        unfolding pn by (rule stripLeadingDotSlash_id) (rule cleanSegs_join_no_dotslash[OF inv(1) sne])
      moreover have "stripTrailingSlashes (joinSlash segs @ t) = joinSlash segs"
        using jl by (auto simp: t_def stripTrailingSlashes_id stripTrailingSlashes_snoc)
      ultimately have res: "normalizeStoragePath v =
         (if joinSlash segs = ''.'' \<or> joinSlash segs = ''..'' \<or> startsWith (joinSlash segs) ''../''
          then DEFAULT_STORAGE_PATH else joinSlash segs)"
        unfolding unfold using jl(1) by (simp add: Let_def)
      show ?thesis
      proof (cases "hd segs = ''..''")
        case True
        then show ?thesis using joinSlash_dotdot_rejected[OF sne True] res by auto
      next
        case False
        then have "''..'' \<notin> set segs" using dotsFirst_hd[OF inv(2) sne] by simp
        then show ?thesis using res sne inv(1) by auto
      qed
    qed
  qed
qed

lemma set_dropWhile_keep: "c \<in> set xs \<Longrightarrow> \<not> P c \<Longrightarrow> c \<in> set (dropWhile P xs)"
  by (induction xs) auto

lemma set_trim_keep: "c \<in> set v \<Longrightarrow> \<not> isWhiteSpace c \<Longrightarrow> c \<in> set (trim v)"
  unfolding trim_def trimEnd_def trimStart_def
  by (simp add: set_dropWhile_keep)

lemma normalizeStoragePath_checked:
  "normalizeStoragePath v = DEFAULT_STORAGE_PATH \<or>
   (let r = normalizeStoragePath v in
      r = stripTrailingSlashes (stripLeadingDotSlash (posixNormalize (backslashesToSlashes (trim v))))
      \<and> r \<noteq> [] \<and> r \<noteq> ''.'' \<and> r \<noteq> ''..'' \<and> \<not> startsWith r ''../'')"
  by (simp add: normalizeStoragePath_def Let_def)

text \<open>
  C4, as the code has it. A configured value is rejected, and the default root used,
  when it contains a NUL, when it starts with a slash or a backslash once trimmed, or
  when it starts with a drive letter, a colon and a slash or backslash. A \<open>..\<close> in the
  value is resolved lexically and does not reject by itself: the value is rejected when
  what is left after normalisation is empty, \<open>.\<close>, \<open>..\<close> or starts with \<open>../\<close>. Whatever
  the resolver returns is non-empty and none of its segments is \<open>..\<close>.
\<close>

theorem storage_path_rejection:
  "(CHR 0x00 \<in> set v \<longrightarrow> normalizeStoragePath v = DEFAULT_STORAGE_PATH)
   \<and> (startsWith (backslashesToSlashes (trim v)) ''/'' \<longrightarrow> normalizeStoragePath v = DEFAULT_STORAGE_PATH)
   \<and> (hasDrivePrefix (backslashesToSlashes (trim v)) \<longrightarrow> normalizeStoragePath v = DEFAULT_STORAGE_PATH)
   \<and> ((let n = stripTrailingSlashes (stripLeadingDotSlash (posixNormalize (backslashesToSlashes (trim v))))
        in n = [] \<or> n = ''.'' \<or> n = ''..'' \<or> startsWith n ''../'')
       \<longrightarrow> normalizeStoragePath v = DEFAULT_STORAGE_PATH)
   \<and> normalizeStoragePath v \<noteq> []
   \<and> ''..'' \<notin> set (splitSlash (normalizeStoragePath v))"
proof -
  have nul: "CHR 0x00 \<in> set v \<longrightarrow> normalizeStoragePath v = DEFAULT_STORAGE_PATH"
  proof
    assume "CHR 0x00 \<in> set v"
    then have "CHR 0x00 \<in> set (trim v)" by (rule set_trim_keep) (simp add: isWhiteSpace_def)
    then show "normalizeStoragePath v = DEFAULT_STORAGE_PATH"
      by (simp add: normalizeStoragePath_def Let_def)
  qed
  have slash: "startsWith (backslashesToSlashes (trim v)) ''/'' \<longrightarrow> normalizeStoragePath v = DEFAULT_STORAGE_PATH"
    by (simp add: normalizeStoragePath_def Let_def)
  have drive: "hasDrivePrefix (backslashesToSlashes (trim v)) \<longrightarrow> normalizeStoragePath v = DEFAULT_STORAGE_PATH"
    by (simp add: normalizeStoragePath_def Let_def)
  have bad: "(let n = stripTrailingSlashes (stripLeadingDotSlash (posixNormalize (backslashesToSlashes (trim v))))
        in n = [] \<or> n = ''.'' \<or> n = ''..'' \<or> startsWith n ''../'')
       \<longrightarrow> normalizeStoragePath v = DEFAULT_STORAGE_PATH"
    by (simp add: normalizeStoragePath_def Let_def)
  have dflt: "DEFAULT_STORAGE_PATH \<noteq> []" "''..'' \<notin> set (splitSlash DEFAULT_STORAGE_PATH)"
    by (simp_all add: DEFAULT_STORAGE_PATH_def)
  have ne: "normalizeStoragePath v \<noteq> []"
    using normalizeStoragePath_checked[of v] dflt(1) by (auto simp: Let_def)
  have segs: "''..'' \<notin> set (splitSlash (normalizeStoragePath v))"
  proof -
    from normalizeStoragePath_shape[of v] show ?thesis
    proof
      assume "normalizeStoragePath v = DEFAULT_STORAGE_PATH"
      then show ?thesis using dflt(2) by simp
    next
      assume "\<exists>segs. segs \<noteq> [] \<and> cleanSegs segs \<and> ''..'' \<notin> set segs \<and> normalizeStoragePath v = joinSlash segs"
      then obtain segs where s: "segs \<noteq> []" "cleanSegs segs" "''..'' \<notin> set segs"
        "normalizeStoragePath v = joinSlash segs" by blast
      have "splitSlash (joinSlash segs) = segs"
        using s(1,2) by (intro splitSlash_joinSlash) (auto simp: cleanSegs_def)
      with s show ?thesis by simp
    qed
  qed
  from nul slash drive bad ne segs show ?thesis by blast
qed

theorem storage_path_rejection_witness:
  "CHR 0x00 \<in> set [CHR ''a'', CHR 0x00] \<and> normalizeStoragePath [CHR ''a'', CHR 0x00] = DEFAULT_STORAGE_PATH
   \<and> startsWith (backslashesToSlashes (trim '' /etc'')) ''/'' \<and> normalizeStoragePath '' /etc'' = DEFAULT_STORAGE_PATH
   \<and> hasDrivePrefix (backslashesToSlashes (trim ''C:/x'')) \<and> normalizeStoragePath ''C:/x'' = DEFAULT_STORAGE_PATH
   \<and> stripTrailingSlashes (stripLeadingDotSlash (posixNormalize (backslashesToSlashes (trim ''a/../../x'')))) = ''../x''
   \<and> normalizeStoragePath ''a/../../x'' = DEFAULT_STORAGE_PATH
   \<and> normalizeStoragePath ''x/./y/../z/'' = ''x/z''
   \<and> ''..'' \<notin> set (splitSlash (normalizeStoragePath ''x/./y/../z/''))"
proof -
  have a: "CHR 0x00 \<in> set [CHR ''a'', CHR 0x00]" by simp
  have b: "startsWith (backslashesToSlashes (trim '' /etc'')) ''/''" by code_simp
  have c: "hasDrivePrefix (backslashesToSlashes (trim ''C:/x''))" by code_simp
  have d: "stripTrailingSlashes (stripLeadingDotSlash (posixNormalize (backslashesToSlashes (trim ''a/../../x'')))) = ''../x''"
    by code_simp
  have e: "normalizeStoragePath ''x/./y/../z/'' = ''x/z''" by code_simp
  show ?thesis
    using a b c d e
      storage_path_rejection[of "[CHR ''a'', CHR 0x00]"]
      storage_path_rejection[of "'' /etc''"]
      storage_path_rejection[of "''C:/x''"]
      storage_path_rejection[of "''a/../../x''"]
      storage_path_rejection[of "''x/./y/../z/''"]
    by (simp add: Let_def)
qed

text \<open>
  The claim as written fails: \<open>a/../b\<close> contains \<open>..\<close>, and the resolver accepts it
  as \<open>b\<close>.
\<close>

theorem storage_path_dotdot_counterexample:
  "includesStr ''a/../b'' ''..'' \<and> normalizeStoragePath ''a/../b'' = ''b''
   \<and> normalizeStoragePath ''a/../b'' \<noteq> DEFAULT_STORAGE_PATH"
  by code_simp

section \<open>Properties of the anchor relocation\<close>

lemma takeDigits_append:
  assumes "ds \<noteq> []" "\<forall>c\<in>set ds. isDigit c" "rest = [] \<or> \<not> isDigit (hd rest)"
  shows "takeDigits (ds @ rest) = Some (ds, rest)"
proof -
  have "takeWhile isDigit (ds @ rest) = ds" "dropWhile isDigit (ds @ rest) = rest"
    using assms(2,3) by (cases rest; simp add: takeWhile_append2 dropWhile_append2)+
  then show ?thesis using assms(1) by (simp add: takeDigits_def)
qed


























section \<open>Properties of the JSON text functions\<close>

lemma isDigit_iff: "isDigit c \<longleftrightarrow> 48 \<le> (of_char c :: nat) \<and> (of_char c :: nat) \<le> 57"
  by (simp add: isDigit_def less_eq_char_def)

lemma of_char_digit: "(d::nat) < 10 \<Longrightarrow> (of_char (char_of (48 + d)) :: nat) = 48 + d"
  by (simp add: of_char_of)

lemma isDigit_char_of: "(d::nat) < 10 \<Longrightarrow> isDigit (char_of (48 + d))"
  by (simp add: isDigit_iff of_char_digit)

lemma digitVal_char_of: "(d::nat) < 10 \<Longrightarrow> digitVal (char_of (48 + d)) = d"
  by (simp add: digitVal_def of_char_digit)

lemma showNat_digits: "\<forall>c\<in>set (showNat n). isDigit c"
proof (induction n rule: showNat.induct)
  case (1 n)
  show ?case
  proof (cases "n < 10")
    case True
    then show ?thesis by (subst showNat.simps) (simp add: isDigit_char_of)
  next
    case False
    then show ?thesis using 1 by (subst showNat.simps) (simp add: isDigit_char_of)
  qed
qed

lemma showNat_nonempty: "showNat n \<noteq> []"
  by (subst showNat.simps) simp

lemma numberOfDigits_snoc: "numberOfDigits (ds @ [c]) = 10 * numberOfDigits ds + digitVal c"
  by (simp add: numberOfDigits_def)

lemma numberOfDigits_showNat: "numberOfDigits (showNat n) = n"
proof (induction n rule: showNat.induct)
  case (1 n)
  show ?case
  proof (cases "n < 10")
    case True
    then show ?thesis by (subst showNat.simps) (simp add: numberOfDigits_def digitVal_char_of)
  next
    case False
    then have "numberOfDigits (showNat n) = 10 * (n div 10) + n mod 10"
      using 1 by (subst showNat.simps) (simp add: numberOfDigits_snoc digitVal_char_of)
    then show ?thesis by simp
  qed
qed

lemma hd_showNat_zero: "hd (showNat n) = CHR ''0'' \<Longrightarrow> length (showNat n) = 1"
proof (induction n rule: showNat.induct)
  case (1 n)
  show ?case
  proof (cases "n < 10")
    case True
    then show ?thesis by (subst showNat.simps) simp
  next
    case False
    then have sn: "showNat n = showNat (n div 10) @ [char_of (48 + n mod 10)]"
      by (subst showNat.simps) simp
    have "hd (showNat (n div 10)) = CHR ''0''"
      using 1(2) sn showNat_nonempty[of "n div 10"] by (simp add: hd_append)
    then have "length (showNat (n div 10)) = 1" using 1(1) False by simp
    then have "numberOfDigits (showNat (n div 10)) = 0"
      using \<open>hd (showNat (n div 10)) = CHR ''0''\<close>
      by (cases "showNat (n div 10)") (auto simp: numberOfDigits_def digitVal_def)
    then have "n div 10 = 0" by (simp add: numberOfDigits_showNat)
    with False show ?thesis by simp
  qed
qed

lemma parseNumber_showNat:
  assumes "numberEnds rest"
  shows "parseNumber (showNat n @ rest) = Some (of_nat n, rest)"
proof -
  have nd: "rest = [] \<or> \<not> isDigit (hd rest)" using assms by (cases rest) (auto simp: numberEnds_def)
  have td: "takeDigits (showNat n @ rest) = Some (showNat n, rest)"
    by (rule takeDigits_append[OF showNat_nonempty showNat_digits nd])
  obtain c cs where sn: "showNat n = c # cs" using showNat_nonempty[of n] by (cases "showNat n") auto
  have cdig: "isDigit c" using showNat_digits[of n] sn by simp
  then have notminus: "c \<noteq> CHR ''-''" by (auto simp: isDigit_def)
  have lead: "\<not> (hd (showNat n) = CHR ''0'' \<and> length (showNat n) > 1)"
    using hd_showNat_zero[of n] by auto
  have fr: "parseFraction rest = Some (0, rest)"
    using assms by (cases rest) (auto simp: parseFraction_def numberEnds_def)
  have ex: "parseExponent rest = Some (0, rest)"
    using assms by (cases rest) (auto simp: parseExponent_def numberEnds_def)
  have "parseNumber (showNat n @ rest) = Some (scale10 (of_nat (numberOfDigits (showNat n)) + 0) 0, rest)"
    unfolding parseNumber_def using td lead fr ex notminus sn by (simp add: Let_def)
  then show ?thesis by (simp add: scale10_def numberOfDigits_showNat)
qed

lemma hexVal_hexDigit: "d < 16 \<Longrightarrow> hexVal (hexDigit d) = Some d"
  by (auto simp: hexVal_def hexDigit_def less_eq_char_def of_char_of)

lemma hex4_escape:
  assumes "(of_char c :: nat) < 32"
  shows "hex4 (CHR ''0'' # CHR ''0'' # hexDigit (of_char c div 16) # hexDigit (of_char c mod 16) # rest) = Some c"
proof -
  have z: "hexVal CHR ''0'' = Some 0" by (simp add: hexVal_def less_eq_char_def)
  have h1: "hexVal (hexDigit (of_char c div 16)) = Some (of_char c div 16)"
    using assms by (intro hexVal_hexDigit) simp
  have h2: "hexVal (hexDigit (of_char c mod 16)) = Some (of_char c mod 16)"
    by (intro hexVal_hexDigit) simp
  have "char_of (((0 * 16 + 0) * 16 + (of_char c :: nat) div 16) * 16 + of_char c mod 16) = c"
    by simp
  then show ?thesis unfolding hex4_def using z h1 h2 by simp
qed

lemma parseStringBody_Cons:
  "parseStringBody (c # cs) =
     (if c = dquote then Some ([], cs)
      else if c = backslash then
        (case cs of
           [] \<Rightarrow> None
         | e # r \<Rightarrow>
             if e = CHR ''u'' then
               (case hex4 r of
                  None \<Rightarrow> None
                | Some ch \<Rightarrow>
                    (case parseStringBody (drop 4 r) of
                       None \<Rightarrow> None
                     | Some (str, rest) \<Rightarrow> Some (ch # str, rest)))
             else
               (case unescapeChar e of
                  None \<Rightarrow> None
                | Some ch \<Rightarrow>
                    (case parseStringBody r of
                       None \<Rightarrow> None
                     | Some (str, rest) \<Rightarrow> Some (ch # str, rest))))
      else if (of_char c :: nat) < 32 then None
      else
        (case parseStringBody cs of
           None \<Rightarrow> None
         | Some (str, rest) \<Rightarrow> Some (c # str, rest)))"
  by (subst parseStringBody.simps) simp

lemma parseStringBody_two:
  assumes "unescapeChar e = Some c" "e \<noteq> CHR ''u''"
  shows "parseStringBody ([backslash, e] @ rest) =
     (case parseStringBody rest of None \<Rightarrow> None | Some (str, r) \<Rightarrow> Some (c # str, r))"
  using assms by (simp add: parseStringBody_Cons dquote_def backslash_def)

lemma parseStringBody_escape:
  "parseStringBody (escapeJSONChar c @ rest) =
     (case parseStringBody rest of None \<Rightarrow> None | Some (str, r) \<Rightarrow> Some (c # str, r))"
proof -
  consider (q) "c = dquote" | (b) "c = backslash" | (bs) "c = CHR 0x08" | (ff) "c = CHR 0x0C"
    | (nl) "c = CHR 0x0A" | (cr) "c = CHR 0x0D" | (tab) "c = CHR 0x09"
    | (ctl) "c \<noteq> dquote" "c \<noteq> backslash" "c \<noteq> CHR 0x08" "c \<noteq> CHR 0x0C" "c \<noteq> CHR 0x0A"
            "c \<noteq> CHR 0x0D" "c \<noteq> CHR 0x09" "(of_char c :: nat) < 32"
    | (plain) "c \<noteq> dquote" "c \<noteq> backslash" "\<not> (of_char c :: nat) < 32"
    by blast
  then show ?thesis
  proof cases
    case q
    have "escapeJSONChar c = [backslash, dquote]" using q by (simp add: escapeJSONChar_def)
    then show ?thesis
      using parseStringBody_two[of dquote c rest] q by (simp add: unescapeChar_def dquote_def)
  next
    case b
    have "escapeJSONChar c = [backslash, backslash]" using b by (simp add: escapeJSONChar_def dquote_def backslash_def)
    then show ?thesis
      using parseStringBody_two[of backslash c rest] b by (simp add: unescapeChar_def dquote_def backslash_def)
  next
    case bs
    have "escapeJSONChar c = [backslash, CHR ''b'']" using bs by (simp add: escapeJSONChar_def dquote_def backslash_def)
    then show ?thesis
      using parseStringBody_two[of "CHR ''b''" c rest] bs by (simp add: unescapeChar_def dquote_def backslash_def)
  next
    case ff
    have "escapeJSONChar c = [backslash, CHR ''f'']" using ff by (simp add: escapeJSONChar_def dquote_def backslash_def)
    then show ?thesis
      using parseStringBody_two[of "CHR ''f''" c rest] ff by (simp add: unescapeChar_def dquote_def backslash_def)
  next
    case nl
    have "escapeJSONChar c = [backslash, CHR ''n'']" using nl by (simp add: escapeJSONChar_def dquote_def backslash_def)
    then show ?thesis
      using parseStringBody_two[of "CHR ''n''" c rest] nl by (simp add: unescapeChar_def dquote_def backslash_def)
  next
    case cr
    have "escapeJSONChar c = [backslash, CHR ''r'']" using cr by (simp add: escapeJSONChar_def dquote_def backslash_def)
    then show ?thesis
      using parseStringBody_two[of "CHR ''r''" c rest] cr by (simp add: unescapeChar_def dquote_def backslash_def)
  next
    case tab
    have "escapeJSONChar c = [backslash, CHR ''t'']" using tab by (simp add: escapeJSONChar_def dquote_def backslash_def)
    then show ?thesis
      using parseStringBody_two[of "CHR ''t''" c rest] tab by (simp add: unescapeChar_def dquote_def backslash_def)
  next
    case ctl
    have e: "escapeJSONChar c = [backslash, CHR ''u'', CHR ''0'', CHR ''0'',
        hexDigit (of_char c div 16), hexDigit (of_char c mod 16)]"
      using ctl by (simp add: escapeJSONChar_def)
    show ?thesis
      unfolding e using hex4_escape[OF ctl(8), of rest]
      by (simp add: parseStringBody_Cons dquote_def backslash_def)
  next
    case plain
    have "c \<noteq> CHR 0x08" "c \<noteq> CHR 0x0C" "c \<noteq> CHR 0x0A" "c \<noteq> CHR 0x0D" "c \<noteq> CHR 0x09"
      using plain(3) by auto
    then have "escapeJSONChar c = [c]" using plain by (simp add: escapeJSONChar_def)
    then show ?thesis using plain by (simp add: parseStringBody_Cons)
  qed
qed

lemma parseStringBody_quoted:
  "parseStringBody (concat (map escapeJSONChar s) @ dquote # rest) = Some (s, rest)"
  by (induction s) (simp_all add: parseStringBody_escape parseStringBody_Cons)

lemma quoteJSONString_Cons: "quoteJSONString s @ rest = dquote # concat (map escapeJSONChar s) @ dquote # rest"
  by (simp add: quoteJSONString_def)

lemma skipWs_LF [simp]: "skipWs (LF # s) = skipWs s"
  by (simp add: skipWs_def isJsonWs_def LF_def)

lemma skipWs_space [simp]: "skipWs (CHR '' '' # s) = skipWs s"
  by (simp add: skipWs_def isJsonWs_def)

lemma skipWs_spaces [simp]: "skipWs (spaces n @ s) = skipWs s"
  by (induction n) (simp_all add: spaces_def)

lemma skipWs_id: "s = [] \<or> \<not> isJsonWs (hd s) \<Longrightarrow> skipWs s = s"
  by (cases s) (auto simp: skipWs_def)

lemma quoteJSONString_hd: "quoteJSONString s = dquote # tl (quoteJSONString s)"
  by (simp add: quoteJSONString_def)

lemma stringify_first:
  "stringify ind j \<noteq> [] \<and> \<not> isJsonWs (hd (stringify ind j))
   \<and> hd (stringify ind j) \<noteq> CHR '']'' \<and> hd (stringify ind j) \<noteq> CHR ''}''"
proof (cases j)
  case (JNum n)
  obtain c cs where sn: "showNat n = c # cs" using showNat_nonempty[of n] by (cases "showNat n") auto
  then have "isDigit c" using showNat_digits[of n] by simp
  then have "\<not> isJsonWs c \<and> c \<noteq> CHR '']'' \<and> c \<noteq> CHR ''}''"
    by (auto simp: isDigit_iff isJsonWs_def)
  then show ?thesis using JNum sn by simp
next
  case (JArr xs) then show ?thesis by (cases xs) (simp_all add: isJsonWs_def)
next
  case (JObj ms) then show ?thesis by (cases ms) (simp_all add: isJsonWs_def)
qed (simp_all add: isJsonWs_def quoteJSONString_def dquote_def)

lemma skipWs_stringify [simp]: "skipWs (stringify ind j @ rest) = stringify ind j @ rest"
  using stringify_first[of ind j] by (intro skipWs_id) (simp add: hd_append)

lemma numberEnds_comma [simp]: "numberEnds (CHR '','' # s)" "numberEnds (LF # s)" "numberEnds []"
  by (simp_all add: numberEnds_def isDigit_iff LF_def)

lemma stringifyElems_Cons:
  "stringifyElems k (x # xs) =
     spaces k @ stringify k x @ (if xs = [] then [] else '','' @ [LF] @ stringifyElems k xs)"
  by (cases xs) simp_all

lemma stringifyMembers_Cons:
  "stringifyMembers k ((key, v) # ms) =
     spaces k @ quoteJSONString key @ '': '' @ stringify k v
       @ (if ms = [] then [] else '','' @ [LF] @ stringifyMembers k ms)"
  by (cases ms) simp_all

lemma length_spaces [simp]: "length (spaces k) = k"
  by (simp add: spaces_def)

lemma drop_spaces [simp]: "drop k (spaces k @ s) = s"
  by simp

lemma skipWs_elems:
  "skipWs (LF # stringifyElems k (x # xs) @ rest) = drop k (stringifyElems k (x # xs)) @ rest"
  by (simp add: stringifyElems_Cons)

lemma skipWs_members:
  "skipWs (LF # stringifyMembers k (m # ms) @ rest) = drop k (stringifyMembers k (m # ms)) @ rest"
  by (cases m) (simp add: stringifyMembers_Cons skipWs_id quoteJSONString_def dquote_def isJsonWs_def)

lemma elems_first:
  "\<exists>d r. drop k (stringifyElems k (x # xs)) @ rest = d # r \<and> d \<noteq> CHR '']''"
  using stringify_first[of k x]
  by (cases "stringify k x") (auto simp: stringifyElems_Cons)

lemma members_first:
  "\<exists>r. drop k (stringifyMembers k (m # ms)) @ rest = dquote # r"
  by (cases m) (simp add: stringifyMembers_Cons quoteJSONString_def)

lemma parseValue_Suc_stringify:
  "parseValue (Suc n) (stringify ind j @ rest) =
     (case j of
        JNull \<Rightarrow> Some (JNull, rest)
      | JBool b \<Rightarrow> Some (JBool b, rest)
      | JNum k \<Rightarrow> (case parseNumber (showNat k @ rest) of None \<Rightarrow> None | Some (x, r) \<Rightarrow> Some (JNum x, r))
      | JStr s \<Rightarrow> Some (JStr s, rest)
      | JArr [] \<Rightarrow> Some (JArr [], rest)
      | JArr (x # xs) \<Rightarrow>
          (case parseElems n (drop (ind + 2) (stringifyElems (ind + 2) (x # xs)) @ LF # spaces ind @ CHR '']'' # rest) of
             None \<Rightarrow> None | Some (vs, r) \<Rightarrow> Some (JArr vs, r))
      | JObj [] \<Rightarrow> Some (JObj [], rest)
      | JObj (m # ms) \<Rightarrow>
          (case parseMembers n (drop (ind + 2) (stringifyMembers (ind + 2) (m # ms)) @ LF # spaces ind @ CHR ''}'' # rest) of
             None \<Rightarrow> None | Some (vs, r) \<Rightarrow> Some (JObj vs, r)))"
proof (cases j)
  case JNull then show ?thesis by (simp add: dquote_def isDigit_iff)
next
  case (JBool b) then show ?thesis by (simp add: dquote_def isDigit_iff)
next
  case (JNum k)
  obtain c cs where sn: "showNat k = c # cs" using showNat_nonempty[of k] by (cases "showNat k") auto
  then have d: "isDigit c" using showNat_digits[of k] by simp
  then have "c \<noteq> CHR ''{''" "c \<noteq> CHR ''[''" "c \<noteq> dquote" by (auto simp: isDigit_iff dquote_def)
  then show ?thesis using JNum sn d by simp
next
  case (JStr s)
  then show ?thesis
    by (simp add: quoteJSONString_def parseStringBody_quoted[unfolded dquote_def] dquote_def)
next
  case (JArr xs)
  show ?thesis
  proof (cases xs)
    case Nil then show ?thesis using JArr by (simp add: skipWs_def isJsonWs_def)
  next
    case (Cons x ys)
    define k where "k = ind + 2"
    define tail where "tail = LF # spaces ind @ CHR '']'' # rest"
    have sk: "skipWs (LF # stringifyElems k (x # ys) @ tail) = drop k (stringifyElems k (x # ys)) @ tail"
      by (rule skipWs_elems)
    obtain d r where dr: "drop k (stringifyElems k (x # ys)) @ tail = d # r" "d \<noteq> CHR '']''"
      using elems_first[of k x ys tail] by blast
    have "parseValue (Suc n) (CHR ''['' # LF # stringifyElems k (x # ys) @ tail) =
        (case parseElems n (d # r) of None \<Rightarrow> None | Some (vs, r') \<Rightarrow> Some (JArr vs, r'))"
      using sk dr by (simp del: stringifyElems.simps)
    then show ?thesis
      using JArr Cons dr(1) by (simp add: k_def tail_def del: stringifyElems.simps)
  qed
next
  case (JObj ms)
  show ?thesis
  proof (cases ms)
    case Nil then show ?thesis using JObj by (simp add: skipWs_def isJsonWs_def)
  next
    case (Cons m ys)
    define k where "k = ind + 2"
    define tail where "tail = LF # spaces ind @ CHR ''}'' # rest"
    have sk: "skipWs (LF # stringifyMembers k (m # ys) @ tail) = drop k (stringifyMembers k (m # ys)) @ tail"
      by (rule skipWs_members)
    obtain r where dr: "drop k (stringifyMembers k (m # ys)) @ tail = dquote # r"
      using members_first[of k m ys tail] by blast
    have "parseValue (Suc n) (CHR ''{'' # LF # stringifyMembers k (m # ys) @ tail) =
        (case parseMembers n (dquote # r) of None \<Rightarrow> None | Some (vs, r') \<Rightarrow> Some (JObj vs, r'))"
      using sk dr by (simp add: dquote_def del: stringifyMembers.simps)
    then show ?thesis
      using JObj Cons dr(1) by (simp add: k_def tail_def del: stringifyMembers.simps)
  qed
qed

lemma skipWs_punct [simp]:
  "skipWs (CHR '']'' # s) = CHR '']'' # s" "skipWs (CHR ''}'' # s) = CHR ''}'' # s"
  "skipWs (CHR '','' # s) = CHR '','' # s" "skipWs (CHR '':'' # s) = CHR '':'' # s"
  by (simp_all add: skipWs_def isJsonWs_def)

lemma parseElems_Suc:
  "parseElems (Suc n) s =
     (case parseValue n s of
        None \<Rightarrow> None
      | Some (v, r) \<Rightarrow>
          (case skipWs r of
             [] \<Rightarrow> None
           | d # r' \<Rightarrow>
               if d = CHR '','' then
                 (case parseElems n (skipWs r') of
                    None \<Rightarrow> None
                  | Some (vs, r'') \<Rightarrow> Some (v # vs, r''))
               else if d = CHR '']'' then Some ([v], r')
               else None))"
  by simp

lemma parse_stringify:
  "jfuel j \<le> n \<Longrightarrow> numberEnds rest \<Longrightarrow>
     parseValue n (stringify ind j @ rest) = Some (map_json of_nat j, rest)"
  "xs \<noteq> [] \<Longrightarrow> jfuelElems xs \<le> n \<Longrightarrow>
     parseElems n (drop ind (stringifyElems ind xs) @ LF # spaces k @ CHR '']'' # rest)
       = Some (map (map_json of_nat) xs, rest)"
  "ms \<noteq> [] \<Longrightarrow> jfuelMembers ms \<le> n \<Longrightarrow>
     parseMembers n (drop ind (stringifyMembers ind ms) @ LF # spaces k @ CHR ''}'' # rest)
       = Some (map (map_prod id (map_json of_nat)) ms, rest)"
proof (induction ind j and ind xs and ind ms arbitrary: n rest and n rest k and n rest k
    rule: stringify_stringifyElems_stringifyMembers.induct)
  case (1 ind)
  then obtain m where m: "n = Suc m" by (cases n) auto
  show ?case unfolding m parseValue_Suc_stringify by simp
next
  case (2 ind b)
  then obtain m where m: "n = Suc m" by (cases n) auto
  show ?case unfolding m parseValue_Suc_stringify by simp
next
  case (3 ind v)
  then obtain m where m: "n = Suc m" by (cases n) auto
  show ?case unfolding m parseValue_Suc_stringify using 3 by (simp add: parseNumber_showNat)
next
  case (4 ind s)
  then obtain m where m: "n = Suc m" by (cases n) auto
  show ?case unfolding m parseValue_Suc_stringify by simp
next
  case (5 ind)
  then obtain m where m: "n = Suc m" by (cases n) auto
  show ?case unfolding m parseValue_Suc_stringify by simp
next
  case (6 ind x xs)
  then obtain m where m: "n = Suc m" by (cases n) auto
  have "parseElems m (drop (ind + 2) (stringifyElems (ind + 2) (x # xs)) @ LF # spaces ind @ CHR '']'' # rest)
        = Some (map (map_json of_nat) (x # xs), rest)"
    using 6 m by (intro "6.IH") simp_all
  then show ?case
    unfolding m parseValue_Suc_stringify by (simp del: parseValue.simps stringifyElems.simps)
next
  case (7 ind)
  then obtain m where m: "n = Suc m" by (cases n) auto
  show ?case unfolding m parseValue_Suc_stringify by simp
next
  case (8 ind mm ms)
  then obtain m where m: "n = Suc m" by (cases n) auto
  have "parseMembers m (drop (ind + 2) (stringifyMembers (ind + 2) (mm # ms)) @ LF # spaces ind @ CHR ''}'' # rest)
        = Some (map (map_prod id (map_json of_nat)) (mm # ms), rest)"
    using 8 m by (intro "8.IH") simp_all
  then show ?case
    unfolding m parseValue_Suc_stringify by (simp del: parseValue.simps stringifyMembers.simps)
next
  case (9 ind)
  then show ?case by simp
next
  case (10 ind x)
  then obtain m where m: "n = Suc m" by (cases n) auto
  have v: "parseValue m (stringify ind x @ LF # spaces k @ CHR '']'' # rest)
        = Some (map_json of_nat x, LF # spaces k @ CHR '']'' # rest)"
    using 10 m by (intro "10.IH") simp_all
  show ?case
    unfolding m parseElems_Suc using v by (simp add: stringifyElems_Cons)
next
  case (11 ind x y ys)
  then obtain m where m: "n = Suc m" by (cases n) auto
  define tail where "tail = LF # spaces k @ CHR '']'' # rest"
  have v: "parseValue m (stringify ind x @ CHR '','' # LF # stringifyElems ind (y # ys) @ tail)
        = Some (map_json of_nat x, CHR '','' # LF # stringifyElems ind (y # ys) @ tail)"
    using 11 m by (intro "11.IH"(1)) simp_all
  have e: "parseElems m (drop ind (stringifyElems ind (y # ys)) @ tail)
        = Some (map (map_json of_nat) (y # ys), rest)"
    unfolding tail_def using 11 m by (intro "11.IH"(2)) simp_all
  have sk: "skipWs (CHR '','' # LF # stringifyElems ind (y # ys) @ tail)
        = CHR '','' # LF # stringifyElems ind (y # ys) @ tail"
    by simp
  have "drop ind (stringifyElems ind (x # y # ys)) @ tail
        = stringify ind x @ CHR '','' # LF # stringifyElems ind (y # ys) @ tail"
    by (simp add: stringifyElems_Cons del: stringifyElems.simps)
  then show ?case
    unfolding m parseElems_Suc tail_def[symmetric]
    using v e sk skipWs_elems[of ind y ys tail]
    by (simp del: stringifyElems.simps parseValue.simps parseElems.simps)
next
  case (12 ind)
  then show ?case by simp
next
  case (13 ind key v)
  then obtain m where m: "n = Suc m" by (cases n) auto
  define tail where "tail = LF # spaces k @ CHR ''}'' # rest"
  have pv: "parseValue m (stringify ind v @ tail) = Some (map_json of_nat v, tail)"
    unfolding tail_def using 13 m by (intro "13.IH") simp_all
  have "drop ind (stringifyMembers ind [(key, v)]) @ tail
        = dquote # concat (map escapeJSONChar key) @ dquote # CHR '':'' # CHR '' '' # stringify ind v @ tail"
    by (simp add: quoteJSONString_def)
  then show ?case
    unfolding m tail_def[symmetric]
    using pv parseStringBody_quoted[of key "CHR '':'' # CHR '' '' # stringify ind v @ tail"]
    by (simp add: tail_def dquote_def id_def del: parseValue.simps)
next
  case (14 ind key v mm ms)
  then obtain m where m: "n = Suc m" by (cases n) auto
  define tail where "tail = LF # spaces k @ CHR ''}'' # rest"
  define more where "more = CHR '','' # LF # stringifyMembers ind (mm # ms) @ tail"
  have pv: "parseValue m (stringify ind v @ more) = Some (map_json of_nat v, more)"
    unfolding more_def using 14 m by (intro "14.IH"(1)) simp_all
  have pm: "parseMembers m (drop ind (stringifyMembers ind (mm # ms)) @ tail)
        = Some (map (map_prod id (map_json of_nat)) (mm # ms), rest)"
    unfolding tail_def using 14 m by (intro "14.IH"(2)) simp_all
  have shape: "drop ind (stringifyMembers ind ((key, v) # mm # ms)) @ tail
        = dquote # concat (map escapeJSONChar key) @ dquote # CHR '':'' # CHR '' '' # stringify ind v @ more"
    by (simp add: stringifyMembers_Cons quoteJSONString_def more_def del: stringifyMembers.simps)
  have sk1: "skipWs more = more" by (simp add: more_def)
  have sk2: "skipWs (LF # stringifyMembers ind (mm # ms) @ tail) = drop ind (stringifyMembers ind (mm # ms)) @ tail"
    by (rule skipWs_members)
  show ?case
    unfolding m tail_def[symmetric] shape
    using pv pm sk1 sk2 parseStringBody_quoted[of key "CHR '':'' # CHR '' '' # stringify ind v @ more"]
    by (simp add: dquote_def more_def id_def del: parseValue.simps stringifyMembers.simps)
qed

lemma length_quoteJSONString: "2 \<le> length (quoteJSONString s)"
  by (simp add: quoteJSONString_def)

lemma jfuel_bound:
  "jfuel j \<le> 2 * length (stringify ind j)"
  "jfuelElems xs \<le> 2 * length (stringifyElems ind xs) + 1"
  "jfuelMembers ms \<le> 2 * length (stringifyMembers ind ms) + 1"
proof (induction ind j and ind xs and ind ms rule: stringify_stringifyElems_stringifyMembers.induct)
  case (3 ind v)
  have "1 \<le> length (showNat v)" using showNat_nonempty[of v] by (cases "showNat v") auto
  then show ?case by simp
next
  case (4 ind s)
  then show ?case using length_quoteJSONString[of s] by simp
qed (auto simp del: stringifyElems.simps(3) stringifyMembers.simps(3) simp add: stringifyElems_Cons stringifyMembers_Cons)

lemma JSON_parse_stringify: "JSON_parse (JSON_stringify j) = Some (map_json of_nat j)"
proof -
  have f: "jfuel j \<le> 2 * length (stringify 0 j) + 1" using jfuel_bound(1)[of j 0] by simp
  have "parseValue (2 * length (stringify 0 j) + 1) (stringify 0 j @ []) = Some (map_json of_nat j, [])"
    by (rule parse_stringify(1)[OF f]) simp
  moreover have "skipWs (stringify 0 j) = stringify 0 j" using skipWs_stringify[of 0 j "[]"] by simp
  ultimately show ?thesis by (simp add: JSON_parse_def JSON_stringify_def skipWs_def)
qed

subsection \<open>Reading back the metadata block\<close>

lemma parseNonNegativeInteger_nat: "parseNonNegativeInteger (Some (JNum (of_nat n))) = Some n"
  by (simp add: parseNonNegativeInteger_def)

lemma parseStringArray_strs: "parseStringArray (Some (JArr (map JStr xs))) = Some xs"
proof -
  have "list_all (\<lambda>x. jsonStringOf x \<noteq> None) (map JStr xs :: 'a json list)"
    by (induction xs) (simp_all add: jsonStringOf_def)
  moreover have "map (\<lambda>x. the (jsonStringOf x)) (map JStr xs :: 'a json list) = xs"
    by (induction xs) (simp_all add: jsonStringOf_def)
  ultimately show ?thesis by (simp add: parseStringArray_def)
qed

lemma parsePersistedRange_rangeJson:
  "parsePersistedRange (Some (map_json of_nat (rangeJson r))) = Some r"
  by (simp add: parsePersistedRange_def rangeJson_def isRecord_def propOf_def getProp_def
      parseNonNegativeInteger_nat)

lemma parsePersistedAnchorContext_contextJson:
  "parsePersistedAnchorContext (Some (map_json of_nat (contextJson c))) = Some c"
proof -
  have m: "map_json of_nat (contextJson c)
      = JObj [(''before'', JArr (map JStr (before c))), (''selection'', JStr (selection c)),
              (''after'', JArr (map JStr (after c)))]"
    by (simp add: contextJson_def comp_def)
  show ?thesis
    unfolding m
    by (simp add: parsePersistedAnchorContext_def isRecord_def propOf_def getProp_def
        parseStringArray_strs parseString_def)
qed

lemma metaGit_cases:
  obtains "metaGit g = None"
  | b h where "metaGit g = Some \<lparr>baseRef = b, hunkHeader = h, hunkPatch = None\<rparr>" "truthy b \<or> truthy h"
proof (cases "metaGit g")
  case None then show ?thesis using that by simp
next
  case (Some gg)
  then obtain g0 where g: "g = Some g0" "truthy (baseRef g0) \<or> truthy (hunkHeader g0)"
    "gg = g0\<lparr>hunkPatch := None\<rparr>"
    by (auto simp: metaGit_def split: option.splits if_splits)
  show ?thesis
    using that(2)[of "baseRef g0" "hunkHeader g0"] Some g by (cases g0) simp
qed

lemma propOf_JObj: "propOf (Some (JObj ms)) k = map_of (rev ms) k"
  by (simp add: propOf_def getProp_def)

lemma isRecord_None: "\<not> isRecord None"
  by (simp add: isRecord_def)

lemma isRecord_JObj: "isRecord (Some (JObj ms))"
  by (simp add: isRecord_def)

lemma parseAnchor_anchorJson:
  "parseAnchor (Some (map_json of_nat (JObj ([(''kind'', JStr ''lineRange'')] @ optMember ''context'' ctx contextJson
                 @ optMember ''git'' (metaGit g) gitJson))))
     = \<lparr>anchorContext = ctx, anchorGit = metaGit g\<rparr>"
proof (cases g rule: metaGit_cases)
  case 1
  show ?thesis
  proof (cases ctx)
    case None
    then show ?thesis using 1
      by (simp add: parseAnchor_def isRecord_def propOf_def getProp_def optMember_def
          parsePersistedAnchorContext_def)
  next
    case (Some c)
    have "parseAnchor (Some (JObj [(''kind'', JStr ''lineRange''), (''context'', map_json of_nat (contextJson c))]))
       = \<lparr>anchorContext = Some c, anchorGit = None\<rparr>"
      by (simp add: parseAnchor_def isRecord_def propOf_def getProp_def
          parsePersistedAnchorContext_contextJson)
    then show ?thesis using 1 Some by (simp add: optMember_def)
  qed
next
  case (2 b h)
  have gj: "parseString (propOf (Some (map_json of_nat (gitJson \<lparr>baseRef = b, hunkHeader = h, hunkPatch = None\<rparr>)) :: rat json option) ''baseRef'') = b"
    "parseString (propOf (Some (map_json of_nat (gitJson \<lparr>baseRef = b, hunkHeader = h, hunkPatch = None\<rparr>)) :: rat json option) ''hunkHeader'') = h"
    "parseString (propOf (Some (map_json of_nat (gitJson \<lparr>baseRef = b, hunkHeader = h, hunkPatch = None\<rparr>)) :: rat json option) ''hunkPatch'') = None"
    "isRecord (Some (map_json of_nat (gitJson \<lparr>baseRef = b, hunkHeader = h, hunkPatch = None\<rparr>)) :: rat json option)"
    by (cases b; cases h; simp add: gitJson_def optMember_def propOf_def getProp_def parseString_def isRecord_def)+
  show ?thesis
  proof (cases ctx)
    case None
    have "parseAnchor (Some (JObj [(''kind'', JStr ''lineRange''), (''git'', map_json of_nat (gitJson \<lparr>baseRef = b, hunkHeader = h, hunkPatch = None\<rparr>))]))
       = \<lparr>anchorContext = None, anchorGit = Some \<lparr>baseRef = b, hunkHeader = h, hunkPatch = None\<rparr>\<rparr>"
      unfolding parseAnchor_def
      using 2(2) by (auto simp add: isRecord_JObj propOf_JObj gj parsePersistedAnchorContext_def isRecord_None Let_def)
    then show ?thesis using 2 None by (simp add: optMember_def)
  next
    case (Some c)
    have "parseAnchor (Some (JObj [(''kind'', JStr ''lineRange''), (''context'', map_json of_nat (contextJson c)),
           (''git'', map_json of_nat (gitJson \<lparr>baseRef = b, hunkHeader = h, hunkPatch = None\<rparr>))]))
       = \<lparr>anchorContext = Some c, anchorGit = Some \<lparr>baseRef = b, hunkHeader = h, hunkPatch = None\<rparr>\<rparr>"
      unfolding parseAnchor_def
      using 2(2) by (auto simp add: isRecord_JObj propOf_JObj gj parsePersistedAnchorContext_contextJson Let_def)
    then show ?thesis using 2 Some by (simp add: optMember_def)
  qed
qed

lemma parsePersistedThreadStatus_statusString:
  "parsePersistedThreadStatus (Some (JStr (statusString st))) x = st"
  by (cases st) (simp_all add: parsePersistedThreadStatus_def statusString_def)

lemma parsePersistedRange_opt:
  "parsePersistedRange (Some (map_json of_nat (case r of None \<Rightarrow> JNull | Some r \<Rightarrow> rangeJson r))) = r"
  by (cases r) (simp_all add: parsePersistedRange_rangeJson, simp add: parsePersistedRange_def)

lemma parsePersistedThreadMeta_metaJson:
  assumes "trim (threadId t) \<noteq> []" "trim (workspaceRelativePath (target t)) \<noteq> []"
  shows "parsePersistedThreadMeta now (Some (map_json of_nat (metaJson t))) = Some (storedMeta t)"
proof -
  define aj where "aj = map_json (of_nat :: nat \<Rightarrow> rat) (JObj ([(''kind'', JStr ''lineRange'')]
                 @ optMember ''context'' (anchorContext (anchor (target t))) contextJson
                 @ optMember ''git'' (metaGit (anchorGit (anchor (target t)))) gitJson))"
  define rj where "rj = map_json (of_nat :: nat \<Rightarrow> rat) (case targetRange (target t) of None \<Rightarrow> JNull | Some r \<Rightarrow> rangeJson r)"
  have m: "map_json of_nat (metaJson t) =
     JObj [(''schemaVersion'', JNum (of_nat SCHEMA_VERSION)),
           (''id'', JStr (threadId t)),
           (''target'', JObj [
              (''workspaceRelativePath'', JStr (workspaceRelativePath (target t))),
              (''range'', rj),
              (''anchor'', aj)]),
           (''status'', JStr (statusString (status t))),
           (''createdAt'', JStr (createdAt t)),
           (''updatedAt'', JStr (updatedAt t))]"
    unfolding aj_def rj_def metaJson_def by simp
  have a: "parseAnchor (Some aj) = \<lparr>anchorContext = anchorContext (anchor (target t)),
       anchorGit = metaGit (anchorGit (anchor (target t)))\<rparr>"
    unfolding aj_def by (rule parseAnchor_anchorJson)
  have r: "parsePersistedRange (Some rj) = targetRange (target t)"
    unfolding rj_def by (rule parsePersistedRange_opt)
  show ?thesis
    unfolding m parsePersistedThreadMeta_def
    using assms
    by (simp add: isRecord_JObj propOf_JObj a r parseNonEmptyString_def parseString_def
        parsePersistedThreadStatus_statusString storedMeta_def Let_def)
qed

section \<open>Properties of the thread codec\<close>

lemma replaceAll_Nil [simp]: "replaceAll pat rep [] = []"
  by (subst replaceAll.simps) simp

lemma replaceAll_Cons:
  "replaceAll pat rep (c # cs) =
     (if pat \<noteq> [] \<and> startsWith (c # cs) pat then rep @ replaceAll pat rep (drop (length pat) (c # cs))
      else c # replaceAll pat rep cs)"
  by (subst replaceAll.simps) simp

lemma replaceAll_concat_map:
  assumes "\<And>c rest. replaceAll pat rep (f c @ rest) = g c @ replaceAll pat rep rest"
  shows "replaceAll pat rep (concat (map f v)) = concat (map g v)"
  by (induction v) (simp_all add: assms)

lemma replaceAll_single:
  "replaceAll [p] rep s = concat (map (\<lambda>c. if c = p then rep else [c]) s)"
  by (induction s) (simp_all add: replaceAll_Cons)

lemma concat_map_concat_map:
  "concat (map f (concat (map g s))) = concat (map (\<lambda>c. concat (map f (g c))) s)"
  by (induction s) simp_all

lemma escapeXmlAttr_concat: "escapeXmlAttr v = concat (map xmlEscapeChar v)"
proof -
  have "\<And>c. concat (map (\<lambda>c. if c = CHR ''>'' then ''&gt;'' else [c])
          (concat (map (\<lambda>c. if c = CHR ''<'' then ''&lt;'' else [c])
            (concat (map (\<lambda>c. if c = dquote then ''&quot;'' else [c])
              (if c = CHR ''&'' then ''&amp;'' else [c])))))) = xmlEscapeChar c"
    by (simp add: xmlEscapeChar_def dquote_def)
  then show ?thesis
    unfolding escapeXmlAttr_def replaceAll_single concat_map_concat_map by simp
qed

lemma unescapeXmlAttr_escapeXmlAttr: "unescapeXmlAttr (escapeXmlAttr v) = v"
proof -
  define e1 where "e1 = (\<lambda>c. if c = CHR ''&'' then ''&amp;'' else if c = CHR ''<'' then ''&lt;''
                              else if c = CHR ''>'' then ''&gt;'' else [c])"
  define e2 where "e2 = (\<lambda>c. if c = CHR ''&'' then ''&amp;'' else if c = CHR ''>'' then ''&gt;'' else [c])"
  define e3 where "e3 = (\<lambda>c. if c = CHR ''&'' then ''&amp;'' else [c])"
  have p1: "replaceAll ''&quot;'' [dquote] (concat (map xmlEscapeChar v)) = concat (map e1 v)"
    by (rule replaceAll_concat_map) (simp add: xmlEscapeChar_def e1_def replaceAll_Cons dquote_def)
  have p2: "replaceAll ''&lt;'' ''<'' (concat (map e1 v)) = concat (map e2 v)"
    by (rule replaceAll_concat_map) (simp add: e1_def e2_def replaceAll_Cons)
  have p3: "replaceAll ''&gt;'' ''>'' (concat (map e2 v)) = concat (map e3 v)"
    by (rule replaceAll_concat_map) (simp add: e2_def e3_def replaceAll_Cons)
  have p4: "replaceAll ''&amp;'' ''&'' (concat (map e3 v)) = concat (map (\<lambda>c. [c]) v)"
    by (rule replaceAll_concat_map) (simp add: e3_def replaceAll_Cons)
  have "concat (map (\<lambda>c. [c]) v) = v" by (induction v) simp_all
  then show ?thesis
    unfolding unescapeXmlAttr_def escapeXmlAttr_concat p1 p2 p3 p4 by simp
qed

lemma parseThreadMarkdown_no_open:
  assumes "\<forall>l\<in>set (splitLF (replaceCRLF md)). trim l \<noteq> metaOpenLine"
  shows "parseThreadMarkdown now md = None"
proof -
  have "dropWhile (\<lambda>l. trim l \<noteq> metaOpenLine) (splitLF (replaceCRLF md)) = []"
    using assms by (simp only: dropWhile_eq_Nil_conv)
  then show ?thesis unfolding parseThreadMarkdown_def Let_def by (simp only: list.case)
qed

lemma parseThreadMarkdown_unterminated:
  assumes "dropWhile (\<lambda>l. trim l \<noteq> metaOpenLine) (splitLF (replaceCRLF md)) = ol # afterOpen"
    and "\<forall>l\<in>set afterOpen. trim l \<noteq> metaCloseLine"
  shows "parseThreadMarkdown now md = None"
proof -
  have "dropWhile (\<lambda>l. trim l \<noteq> metaCloseLine) afterOpen = []"
    using assms(2) by (simp only: dropWhile_eq_Nil_conv)
  then show ?thesis unfolding parseThreadMarkdown_def Let_def assms(1) by (simp only: list.case)
qed

lemma parseThreadMarkdown_bad_json:
  assumes "dropWhile (\<lambda>l. trim l \<noteq> metaOpenLine) (splitLF (replaceCRLF md)) = ol # afterOpen"
    and "JSON_parse (trim (joinLF (takeWhile (\<lambda>l. trim l \<noteq> metaCloseLine) afterOpen))) = None"
  shows "parseThreadMarkdown now md = None"
  using assms by (simp add: parseThreadMarkdown_def Let_def split: list.splits del: splitLF.simps)

lemma parseThreadMarkdown_bad_meta:
  assumes "dropWhile (\<lambda>l. trim l \<noteq> metaOpenLine) (splitLF (replaceCRLF md)) = ol # afterOpen"
    and "JSON_parse (trim (joinLF (takeWhile (\<lambda>l. trim l \<noteq> metaCloseLine) afterOpen))) = Some v"
    and "parsePersistedThreadMeta now (Some v) = None"
  shows "parseThreadMarkdown now md = None"
  using assms by (simp add: parseThreadMarkdown_def Let_def split: list.splits del: splitLF.simps)

lemma parsePersistedThreadMeta_valid:
  assumes "isRecord v" "propOf v ''schemaVersion'' = Some (JNum 1)"
    "parseNonEmptyString (propOf v ''id'') = Some i" "isRecord (propOf v ''target'')"
    "parseNonEmptyString (propOf (propOf v ''target'') ''workspaceRelativePath'') = Some pth"
  shows "\<exists>m. parsePersistedThreadMeta now v = Some m \<and> threadId m = i
     \<and> workspaceRelativePath (target m) = pth
     \<and> targetRange (target m) = parsePersistedRange (propOf (propOf v ''target'') ''range'')"
  using assms by (simp add: parsePersistedThreadMeta_def SCHEMA_VERSION_def Let_def)

lemma parsePersistedRange_malformed:
  assumes "\<not> isRecord r \<or> parseNonNegativeInteger (propOf r ''startLine'') = None
      \<or> parseNonNegativeInteger (propOf r ''startCharacter'') = None
      \<or> parseNonNegativeInteger (propOf r ''endLine'') = None
      \<or> parseNonNegativeInteger (propOf r ''endCharacter'') = None"
  shows "parsePersistedRange r = None"
  using assms by (auto simp: parsePersistedRange_def split: option.splits)

text \<open>
  C3, as the code has it. \<open>parseThreadMarkdown\<close> is a total function into an optional
  thread: it gives \<open>undefined\<close> when no line is the opening marker, when no line
  after it is the closing marker, when the collected text is not JSON, and when the
  metadata is not an object with \<open>schemaVersion\<close> 1, a non-blank \<open>id\<close> and a target with
  a non-blank \<open>workspaceRelativePath\<close>. A malformed \<open>target.range\<close> does not fail the
  parse: metadata that is valid otherwise is accepted, with the range read as \<open>null\<close>.
\<close>

theorem parse_degrades_to_undefined:
  "((\<forall>l\<in>set (splitLF (replaceCRLF md)). trim l \<noteq> metaOpenLine)
      \<longrightarrow> parseThreadMarkdown now md = None)
   \<and> (dropWhile (\<lambda>l. trim l \<noteq> metaOpenLine) (splitLF (replaceCRLF md)) = ol # afterOpen
       \<and> (\<forall>l\<in>set afterOpen. trim l \<noteq> metaCloseLine)
      \<longrightarrow> parseThreadMarkdown now md = None)
   \<and> (dropWhile (\<lambda>l. trim l \<noteq> metaOpenLine) (splitLF (replaceCRLF md)) = ol # afterOpen
       \<and> JSON_parse (trim (joinLF (takeWhile (\<lambda>l. trim l \<noteq> metaCloseLine) afterOpen))) = None
      \<longrightarrow> parseThreadMarkdown now md = None)
   \<and> (dropWhile (\<lambda>l. trim l \<noteq> metaOpenLine) (splitLF (replaceCRLF md)) = ol # afterOpen
       \<and> JSON_parse (trim (joinLF (takeWhile (\<lambda>l. trim l \<noteq> metaCloseLine) afterOpen))) = Some v
       \<and> parsePersistedThreadMeta now (Some v) = None
      \<longrightarrow> parseThreadMarkdown now md = None)
   \<and> (propOf w ''schemaVersion'' \<noteq> Some (JNum 1) \<longrightarrow> parsePersistedThreadMeta now w = None)
   \<and> (parseNonEmptyString (propOf w ''id'') = None \<longrightarrow> parsePersistedThreadMeta now w = None)
   \<and> (parseNonEmptyString (propOf (propOf w ''target'') ''workspaceRelativePath'') = None
      \<longrightarrow> parsePersistedThreadMeta now w = None)
   \<and> (isRecord w \<and> propOf w ''schemaVersion'' = Some (JNum 1)
       \<and> parseNonEmptyString (propOf w ''id'') = Some i \<and> isRecord (propOf w ''target'')
       \<and> parseNonEmptyString (propOf (propOf w ''target'') ''workspaceRelativePath'') = Some pth
      \<longrightarrow> (\<exists>m. parsePersistedThreadMeta now w = Some m
             \<and> targetRange (target m) = parsePersistedRange (propOf (propOf w ''target'') ''range'')))
   \<and> (\<not> isRecord r \<or> parseNonNegativeInteger (propOf r ''startLine'') = None
       \<or> parseNonNegativeInteger (propOf r ''startCharacter'') = None
       \<or> parseNonNegativeInteger (propOf r ''endLine'') = None
       \<or> parseNonNegativeInteger (propOf r ''endCharacter'') = None
      \<longrightarrow> parsePersistedRange r = None)"
proof -
  have sv: "propOf w ''schemaVersion'' \<noteq> Some (JNum 1) \<longrightarrow> parsePersistedThreadMeta now w = None"
    by (simp add: parsePersistedThreadMeta_def SCHEMA_VERSION_def)
  have idm: "parseNonEmptyString (propOf w ''id'') = None \<longrightarrow> parsePersistedThreadMeta now w = None"
    by (simp add: parsePersistedThreadMeta_def)
  have pm: "parseNonEmptyString (propOf (propOf w ''target'') ''workspaceRelativePath'') = None
      \<longrightarrow> parsePersistedThreadMeta now w = None"
    by (simp add: parsePersistedThreadMeta_def split: option.splits)
  show ?thesis
    using parseThreadMarkdown_no_open[of md now]
      parseThreadMarkdown_unterminated[of md ol afterOpen now]
      parseThreadMarkdown_bad_json[of md ol afterOpen now]
      parseThreadMarkdown_bad_meta[of md ol afterOpen v now]
      sv idm pm
      parsePersistedThreadMeta_valid[of w i pth now]
      parsePersistedRange_malformed[of r]
    by blast
qed

theorem parse_degrades_to_undefined_witness:
  "parseThreadMarkdown ''now'' ''no marker here'' = None
   \<and> parseThreadMarkdown ''now'' (joinLF [metaOpenLine, ''{}'']) = None
   \<and> parseThreadMarkdown ''now'' (joinLF [metaOpenLine, ''{'', metaCloseLine]) = None
   \<and> parseThreadMarkdown ''now'' (joinLF [metaOpenLine, ''{}'', metaCloseLine]) = None
   \<and> parsePersistedThreadMeta ''now'' (Some (JObj [(''schemaVersion'', JNum 2), (''id'', JStr ''t'')])) = None
   \<and> parsePersistedThreadMeta ''now'' (Some (JObj [(''schemaVersion'', JNum 1)])) = None
   \<and> parsePersistedThreadMeta ''now''
        (Some (JObj [(''schemaVersion'', JNum 1), (''id'', JStr ''t''), (''target'', JObj [])])) = None
   \<and> (\<exists>m. parsePersistedThreadMeta ''now''
          (Some (JObj [(''schemaVersion'', JNum 1), (''id'', JStr ''t''),
             (''target'', JObj [(''workspaceRelativePath'', JStr ''a''), (''range'', JStr ''bad'')])])) = Some m
        \<and> targetRange (target m) = None)
   \<and> parsePersistedRange (Some (JObj [(''startLine'', JNum (- 1))])) = None"
proof -
  note T = parse_degrades_to_undefined
  have 1: "parseThreadMarkdown ''now'' ''no marker here'' = None"
  proof -
    have "\<forall>l\<in>set (splitLF (replaceCRLF ''no marker here'')). trim l \<noteq> metaOpenLine" by code_simp
    with T[where md = "''no marker here''" and now = "''now''"] show ?thesis by blast
  qed
  have 2: "parseThreadMarkdown ''now'' (joinLF [metaOpenLine, ''{}'']) = None"
  proof -
    have "dropWhile (\<lambda>l. trim l \<noteq> metaOpenLine) (splitLF (replaceCRLF (joinLF [metaOpenLine, ''{}''])))
          = metaOpenLine # [''{}'']" by code_simp
    moreover have "\<forall>l\<in>set [''{}'']. trim l \<noteq> metaCloseLine" by code_simp
    ultimately show ?thesis
      using T[where md = "joinLF [metaOpenLine, ''{}'']" and now = "''now''" and ol = metaOpenLine
          and afterOpen = "[''{}'']"] by blast
  qed
  have 3: "parseThreadMarkdown ''now'' (joinLF [metaOpenLine, ''{'', metaCloseLine]) = None"
  proof -
    have "dropWhile (\<lambda>l. trim l \<noteq> metaOpenLine) (splitLF (replaceCRLF (joinLF [metaOpenLine, ''{'', metaCloseLine])))
          = metaOpenLine # [''{'', metaCloseLine]" by code_simp
    moreover have "JSON_parse (trim (joinLF (takeWhile (\<lambda>l. trim l \<noteq> metaCloseLine) [''{'', metaCloseLine]))) = None"
      by code_simp
    ultimately show ?thesis
      using T[where md = "joinLF [metaOpenLine, ''{'', metaCloseLine]" and now = "''now''" and ol = metaOpenLine
          and afterOpen = "[''{'', metaCloseLine]"] by blast
  qed
  have 4: "parseThreadMarkdown ''now'' (joinLF [metaOpenLine, ''{}'', metaCloseLine]) = None"
  proof -
    have "dropWhile (\<lambda>l. trim l \<noteq> metaOpenLine) (splitLF (replaceCRLF (joinLF [metaOpenLine, ''{}'', metaCloseLine])))
          = metaOpenLine # [''{}'', metaCloseLine]" by code_simp
    moreover have "JSON_parse (trim (joinLF (takeWhile (\<lambda>l. trim l \<noteq> metaCloseLine) [''{}'', metaCloseLine]))) = Some (JObj [])"
      by code_simp
    moreover have "parsePersistedThreadMeta ''now'' (Some (JObj [])) = None" by code_simp
    ultimately show ?thesis
      using T[where md = "joinLF [metaOpenLine, ''{}'', metaCloseLine]" and now = "''now''" and ol = metaOpenLine
          and afterOpen = "[''{}'', metaCloseLine]" and v = "JObj []"] by blast
  qed
  have 5: "parsePersistedThreadMeta ''now'' (Some (JObj [(''schemaVersion'', JNum 2), (''id'', JStr ''t'')])) = None"
  proof -
    have "propOf (Some (JObj [(''schemaVersion'', JNum 2), (''id'', JStr ''t'')])) ''schemaVersion'' \<noteq> Some (JNum (1::rat))"
      by (simp add: propOf_def getProp_def)
    with T[where w = "Some (JObj [(''schemaVersion'', JNum 2), (''id'', JStr ''t'')])" and now = "''now''"]
    show ?thesis by blast
  qed
  have 6: "parsePersistedThreadMeta ''now'' (Some (JObj [(''schemaVersion'', JNum 1)])) = None"
  proof -
    have "parseNonEmptyString (propOf (Some (JObj [(''schemaVersion'', JNum (1::rat))])) ''id'') = None"
      by (simp add: propOf_def getProp_def parseNonEmptyString_def parseString_def)
    with T[where w = "Some (JObj [(''schemaVersion'', JNum 1)])" and now = "''now''"]
    show ?thesis by blast
  qed
  have 7: "parsePersistedThreadMeta ''now''
        (Some (JObj [(''schemaVersion'', JNum 1), (''id'', JStr ''t''), (''target'', JObj [])])) = None"
  proof -
    have "parseNonEmptyString (propOf (propOf (Some (JObj [(''schemaVersion'', JNum (1::rat)), (''id'', JStr ''t''),
            (''target'', JObj [])])) ''target'') ''workspaceRelativePath'') = None"
      by (simp add: propOf_def getProp_def parseNonEmptyString_def parseString_def)
    with T[where w = "Some (JObj [(''schemaVersion'', JNum 1), (''id'', JStr ''t''), (''target'', JObj [])])"
        and now = "''now''"]
    show ?thesis by blast
  qed
  define W where "W = Some (JObj [(''schemaVersion'', JNum (1::rat)), (''id'', JStr ''t''),
             (''target'', JObj [(''workspaceRelativePath'', JStr ''a''), (''range'', JStr ''bad'')])])"
  have 8: "\<exists>m. parsePersistedThreadMeta ''now'' W = Some m \<and> targetRange (target m) = None"
  proof -
    have h: "isRecord W" "propOf W ''schemaVersion'' = Some (JNum 1)"
      "parseNonEmptyString (propOf W ''id'') = Some ''t''" "isRecord (propOf W ''target'')"
      "parseNonEmptyString (propOf (propOf W ''target'') ''workspaceRelativePath'') = Some ''a''"
      "propOf (propOf W ''target'') ''range'' = Some (JStr ''bad'')"
      unfolding W_def by code_simp+
    have "\<not> isRecord (Some (JStr ''bad'' :: rat json))" by (simp add: isRecord_def)
    with T[where r = "Some (JStr ''bad'')"] have "parsePersistedRange (Some (JStr ''bad'')) = None" by blast
    with T[where w = W and now = "''now''" and i = "''t''" and pth = "''a''"] h show ?thesis by auto
  qed
  have 9: "parsePersistedRange (Some (JObj [(''startLine'', JNum (- 1))])) = None"
  proof -
    have "parseNonNegativeInteger (propOf (Some (JObj [(''startLine'', JNum (- 1))])) ''startLine'') = None"
      by code_simp
    with T[where r = "Some (JObj [(''startLine'', JNum (- 1))])"] show ?thesis by blast
  qed
  from 1 2 3 4 5 6 7 8 9 show ?thesis unfolding W_def by blast
qed

text \<open>
  The claim as written fails for a malformed range: the file below has a range whose
  \<open>startLine\<close> is negative and lacks the other three fields, and it parses to a thread
  with range \<open>null\<close>.
\<close>

theorem malformed_range_counterexample:
  "JSON_parse ''{\"schemaVersion\":1,\"id\":\"t\",\"target\":{\"workspaceRelativePath\":\"a\",\"range\":{\"startLine\":-1}}}''
     = Some (JObj [(''schemaVersion'', JNum 1), (''id'', JStr ''t''),
          (''target'', JObj [(''workspaceRelativePath'', JStr ''a''),
                             (''range'', JObj [(''startLine'', JNum (- 1))])])])
   \<and> parseThreadMarkdown ''now''
       (joinLF [metaOpenLine,
          ''{\"schemaVersion\":1,\"id\":\"t\",\"target\":{\"workspaceRelativePath\":\"a\",\"range\":{\"startLine\":-1}}}'',
          metaCloseLine])
     = Some \<lparr>threadId = ''t'',
             target = \<lparr>workspaceRelativePath = ''a'', targetRange = None,
                       anchor = \<lparr>anchorContext = None, anchorGit = None\<rparr>\<rparr>,
             status = StatusOpen, createdAt = ''now'', updatedAt = ''now'', comments = []\<rparr>"
  by code_simp

lemma dquote_notin_escape: "dquote \<notin> set (escapeXmlAttr s)"
  unfolding escapeXmlAttr_concat by (induction s) (auto simp: xmlEscapeChar_def dquote_def)

lemma eq_in_escape: "CHR ''='' \<in> set (escapeXmlAttr s) \<Longrightarrow> CHR ''='' \<in> set s"
  unfolding escapeXmlAttr_concat by (induction s) (auto simp: xmlEscapeChar_def split: if_splits)

lemma LF_in_escape: "LF \<in> set (escapeXmlAttr s) \<Longrightarrow> LF \<in> set s"
  unfolding escapeXmlAttr_concat by (induction s) (auto simp: xmlEscapeChar_def LF_def split: if_splits)

lemma startsWith_needs_eq:
  "startsWith (zs @ q # rest) (nm @ [e, q]) \<Longrightarrow> e \<noteq> q \<Longrightarrow> q \<notin> set nm \<Longrightarrow> e \<in> set zs"
proof (induction zs arbitrary: nm)
  case Nil
  then show ?case by (cases nm) auto
next
  case (Cons z zs)
  then show ?case by (cases nm) auto
qed

lemma attrSearch_skip:
  assumes "e \<notin> set xs" "e \<noteq> q" "q \<notin> set nm"
  shows "attrSearch (nm @ [e, q]) b (xs @ q # rest)
         = attrSearch (nm @ [e, q]) (if xs = [] then b else isWordChar (last xs)) (q # rest)"
  using assms(1)
proof (induction xs arbitrary: b)
  case Nil
  then show ?case by simp
next
  case (Cons x xs)
  have "\<not> startsWith ((x # xs) @ q # rest) (nm @ [e, q])"
    using startsWith_needs_eq[of "x # xs" q rest nm e] Cons.prems assms(2,3) by blast
  then have "attrSearch (nm @ [e, q]) b ((x # xs) @ q # rest)
             = attrSearch (nm @ [e, q]) (isWordChar x) (xs @ q # rest)"
    by simp
  also have "\<dots> = attrSearch (nm @ [e, q]) (if xs = [] then isWordChar x else isWordChar (last xs)) (q # rest)"
    using Cons.IH[of "isWordChar x"] Cons.prems by simp
  finally show ?case by simp
qed

lemma takeWhile_upto: "q \<notin> set xs \<Longrightarrow> takeWhile (\<lambda>x. x \<noteq> q) (xs @ q # rest) = xs"
  by (induction xs) auto

lemma attrMatch_author:
  assumes "CHR ''='' \<notin> set (commentId c)"
  shows "attrMatch ''author'' (commentMetaLine c) = Some (escapeXmlAttr (author c))"
proof -
  define rest where "rest = '' author='' @ [dquote] @ escapeXmlAttr (author c) @ [dquote]
     @ '' createdAt='' @ [dquote] @ escapeXmlAttr (commentCreatedAt c) @ [dquote] @ ''/>''"
  have line: "commentMetaLine c = ''<local-code-review-comment id='' @ [dquote] @ (escapeXmlAttr (commentId c) @ dquote # rest)"
    by (simp add: commentMetaLine_def COMMENT_TAG_def rest_def)
  have noeq: "CHR ''='' \<notin> set (escapeXmlAttr (commentId c))" using assms eq_in_escape by blast
  have pat: "''author'' @ ''='' @ [dquote] = ''author'' @ [CHR ''='', dquote]" by simp
  have skip1: "attrSearch (''author'' @ [CHR ''='', dquote]) False
        (''<local-code-review-comment id='' @ [dquote] @ (escapeXmlAttr (commentId c) @ dquote # rest))
      = attrSearch (''author'' @ [CHR ''='', dquote]) False (escapeXmlAttr (commentId c) @ dquote # rest)"
    by (simp add: dquote_def isWordChar_def isAsciiLetter_def isDigit_def)
  have skip2: "attrSearch (''author'' @ [CHR ''='', dquote]) False (escapeXmlAttr (commentId c) @ dquote # rest)
      = attrSearch (''author'' @ [CHR ''='', dquote])
          (if escapeXmlAttr (commentId c) = [] then False else isWordChar (last (escapeXmlAttr (commentId c))))
          (dquote # rest)"
    by (rule attrSearch_skip[OF noeq]) (simp_all add: dquote_def)
  have fin: "attrSearch (''author'' @ [CHR ''='', dquote]) b (dquote # rest) = Some (escapeXmlAttr (author c))" for b
    unfolding rest_def
    using dquote_notin_escape[of "author c"]
    by (simp add: dquote_def isWordChar_def isAsciiLetter_def isDigit_def takeWhile_upto[unfolded dquote_def])
  show ?thesis
    unfolding attrMatch_def pat line skip1 skip2 fin ..
qed

lemma trim_id: "s \<noteq> [] \<Longrightarrow> \<not> isWhiteSpace (hd s) \<Longrightarrow> \<not> isWhiteSpace (last s) \<Longrightarrow> trim s = s"
proof -
  assume a: "s \<noteq> []" "\<not> isWhiteSpace (hd s)" "\<not> isWhiteSpace (last s)"
  then have "dropWhile isWhiteSpace s = s" by (cases s) auto
  moreover have "dropWhile isWhiteSpace (rev s) = rev s" using a by (cases s rule: rev_cases) auto
  ultimately show ?thesis by (simp add: trim_def trimStart_def trimEnd_def)
qed

lemma trim_commentMetaLine: "trim (commentMetaLine c) = commentMetaLine c"
  by (rule trim_id) (simp_all add: commentMetaLine_def isWhiteSpace_def)

lemma splitLF_noLF: "LF \<notin> set s \<Longrightarrow> splitLF s = [s]"
  by (induction s) (auto simp: LF_def split: list.splits)

lemma parseCommentAt_author:
  assumes "CHR ''='' \<notin> set (commentId c)"
  shows "author (parseCommentAt meta idx (trim (commentMetaLine c)) body) = orElse (trim (author c)) ''unknown''"
  by (simp add: parseCommentAt_def Let_def trim_commentMetaLine attrMatch_author[OF assms]
      unescapeXmlAttr_escapeXmlAttr)

text \<open>
  C9, as the code has it. Unescaping undoes escaping for every string. The marker the
  serializer writes for a comment is one line of the file when it holds no line feed,
  and the parser reads from it the author trimmed of white space, or \<open>unknown\<close> when
  nothing is left, provided the comment's id holds no \<open>=\<close>; so an author that is not
  empty and has no white space at its ends comes back as it was. The marker of
  scenario C gives the author \<open>A&B\<close>.
\<close>

theorem author_escape_round_trip:
  "unescapeXmlAttr (escapeXmlAttr a) = a
   \<and> (LF \<notin> set (commentMetaLine c) \<longrightarrow> splitLF (commentMetaLine c) = [commentMetaLine c])
   \<and> (CHR ''='' \<notin> set (commentId c) \<longrightarrow>
        author (parseCommentAt meta idx (trim (commentMetaLine c)) body) = orElse (trim (author c)) ''unknown'')
   \<and> (CHR ''='' \<notin> set (commentId c) \<and> author c \<noteq> [] \<and> trim (author c) = author c \<longrightarrow>
        author (parseCommentAt meta idx (trim (commentMetaLine c)) body) = author c)
   \<and> author (parseCommentAt meta idx
        (''<local-code-review-comment id=\"c1\" author=\"A&amp;B\" createdAt=\"2000-01-01T00:00:00.000Z\"/>'') body)
      = ''A&B''"
proof -
  have 1: "unescapeXmlAttr (escapeXmlAttr a) = a" by (rule unescapeXmlAttr_escapeXmlAttr)
  have 2: "LF \<notin> set (commentMetaLine c) \<longrightarrow> splitLF (commentMetaLine c) = [commentMetaLine c]"
    using splitLF_noLF by blast
  have 3: "CHR ''='' \<notin> set (commentId c) \<longrightarrow>
        author (parseCommentAt meta idx (trim (commentMetaLine c)) body) = orElse (trim (author c)) ''unknown''"
    using parseCommentAt_author by blast
  have 4: "CHR ''='' \<notin> set (commentId c) \<and> author c \<noteq> [] \<and> trim (author c) = author c \<longrightarrow>
        author (parseCommentAt meta idx (trim (commentMetaLine c)) body) = author c"
    using parseCommentAt_author[of c meta idx body] by (simp add: orElse_def)
  have am: "attrMatch ''author''
      ''<local-code-review-comment id=\"c1\" author=\"A&amp;B\" createdAt=\"2000-01-01T00:00:00.000Z\"/>''
      = Some ''A&amp;B''" by code_simp
  have un: "orElse (trim (unescapeXmlAttr ''A&amp;B'')) ''unknown'' = ''A&B''" by code_simp
  have 5: "author (parseCommentAt meta idx
        (''<local-code-review-comment id=\"c1\" author=\"A&amp;B\" createdAt=\"2000-01-01T00:00:00.000Z\"/>'') body)
      = ''A&B''"
    unfolding parseCommentAt_def Let_def am using un by simp
  from 1 2 3 4 5 show ?thesis by blast
qed

theorem author_escape_round_trip_witness:
  "unescapeXmlAttr (escapeXmlAttr ''A&B <x>'') = ''A&B <x>''
   \<and> LF \<notin> set (commentMetaLine \<lparr>commentId = ''c1'', author = ''A&B'', bodyMarkdown = [], commentCreatedAt = ''2000''\<rparr>)
   \<and> splitLF (commentMetaLine \<lparr>commentId = ''c1'', author = ''A&B'', bodyMarkdown = [], commentCreatedAt = ''2000''\<rparr>)
      = [commentMetaLine \<lparr>commentId = ''c1'', author = ''A&B'', bodyMarkdown = [], commentCreatedAt = ''2000''\<rparr>]
   \<and> CHR ''='' \<notin> set ''c1'' \<and> trim ''A&B'' = ''A&B''
   \<and> author (parseCommentAt exMeta 0
        (trim (commentMetaLine \<lparr>commentId = ''c1'', author = ''A&B'', bodyMarkdown = [], commentCreatedAt = ''2000''\<rparr>)) [])
      = ''A&B''
   \<and> author (parseCommentAt exMeta 0
        (trim (commentMetaLine \<lparr>commentId = ''c1'', author = ''  '', bodyMarkdown = [], commentCreatedAt = ''2000''\<rparr>)) [])
      = ''unknown''"
proof -
  define c where "c = \<lparr>commentId = ''c1'', author = ''A&B'', bodyMarkdown = [], commentCreatedAt = ''2000''\<rparr>"
  define d where "d = \<lparr>commentId = ''c1'', author = ''  '', bodyMarkdown = [], commentCreatedAt = ''2000''\<rparr>"
  note T = author_escape_round_trip
  have 1: "unescapeXmlAttr (escapeXmlAttr ''A&B <x>'') = ''A&B <x>''"
    using T[where a = "''A&B <x>''"] by blast
  have lf: "LF \<notin> set (commentMetaLine c)" unfolding c_def by code_simp
  have 2: "splitLF (commentMetaLine c) = [commentMetaLine c]"
    using T[where c = c] lf by blast
  have h: "CHR ''='' \<notin> set (commentId c)" "author c \<noteq> []" "trim (author c) = author c" "author c = ''A&B''"
    "trim ''A&B'' = ''A&B''" "CHR ''='' \<notin> set ''c1''"
    unfolding c_def by code_simp+
  have "author (parseCommentAt exMeta 0 (trim (commentMetaLine c)) []) = author c"
    using T[where c = c and meta = exMeta and idx = 0 and body = "[]"] h(1,2,3) by blast
  then have 3: "author (parseCommentAt exMeta 0 (trim (commentMetaLine c)) []) = ''A&B''"
    by (simp only: h(4))
  have hd: "CHR ''='' \<notin> set (commentId d)" "orElse (trim (author d)) ''unknown'' = ''unknown''"
    unfolding d_def by code_simp+
  have "author (parseCommentAt exMeta 0 (trim (commentMetaLine d)) []) = orElse (trim (author d)) ''unknown''"
    using T[where c = d and meta = exMeta and idx = 0 and body = "[]"] hd(1) by blast
  then have 4: "author (parseCommentAt exMeta 0 (trim (commentMetaLine d)) []) = ''unknown''"
    by (simp only: hd(2))
  from 1 lf 2 h(5,6) 3 4 show ?thesis unfolding c_def d_def by blast
qed

text \<open>
  The claim as written fails for an author with a space in front: the marker written
  for the author \<open>" Bob"\<close> is read back as \<open>"Bob"\<close>, also through a whole thread file.
\<close>

theorem author_trimmed_counterexample:
  "author (parseCommentAt exMeta 0
      (trim (commentMetaLine \<lparr>commentId = ''c1'', author = '' Bob'', bodyMarkdown = ''hi'', commentCreatedAt = ''2000''\<rparr>)) [])
     = ''Bob''
   \<and> map author (comments exCommented) = ['' Bob'']
   \<and> map_option (map author \<circ> comments) (parseThreadMarkdown ''now'' (serializeThreadMarkdown exCommented))
     = Some [''Bob'']"
  unfolding exCommented_def exMeta_def by code_simp

subsection \<open>A thread file read back\<close>

lemma splitLF_nonempty [simp]: "splitLF s \<noteq> []"
  by (induction s) (auto split: list.splits)

lemma splitLF_append_LF: "splitLF (a @ LF # b) = splitLF a @ splitLF b"
proof (induction a)
  case Nil
  show ?case by (simp add: LF_def)
next
  case (Cons c a)
  obtain l ls where s: "splitLF a = l # ls" using splitLF_nonempty[of a] by (cases "splitLF a") auto
  show ?case using Cons s by (simp add: LF_def)
qed

lemma joinLF_splitLF: "joinLF (splitLF s) = s"
proof (induction s)
  case Nil show ?case by simp
next
  case (Cons c s)
  obtain l ls where sp: "splitLF s = l # ls" using splitLF_nonempty[of s] by (cases "splitLF s") auto
  show ?case
  proof (cases "c = CHR 0x0A")
    case True
    then show ?thesis using Cons sp by simp
  next
    case False
    then show ?thesis using Cons sp by (cases ls) auto
  qed
qed

lemma joinLF_Cons: "ls \<noteq> [] \<Longrightarrow> joinLF (l # ls) = l @ LF # joinLF ls"
  by (cases ls) (simp_all add: LF_def)

lemma joinLF_snoc_empty: "ls \<noteq> [] \<Longrightarrow> joinLF (ls @ [[]]) = joinLF ls @ [LF]"
proof (induction ls)
  case Nil then show ?case by simp
next
  case (Cons l ls)
  show ?case
  proof (cases ls)
    case Nil then show ?thesis by (simp add: LF_def)
  next
    case (Cons m ms)
    then show ?thesis using Cons.IH by (simp add: LF_def)
  qed
qed

lemma splitLF_joinLF: "ls \<noteq> [] \<Longrightarrow> splitLF (joinLF ls) = concat (map splitLF ls)"
proof (induction ls)
  case Nil then show ?case by simp
next
  case (Cons l ls)
  show ?case
  proof (cases "ls = []")
    case True then show ?thesis by simp
  next
    case False
    then show ?thesis using Cons.IH by (simp add: joinLF_Cons splitLF_append_LF)
  qed
qed

lemma splitLF_lines_noLF: "l \<in> set (splitLF s) \<Longrightarrow> LF \<notin> set l"
proof (induction s arbitrary: l)
  case Nil then show ?case by simp
next
  case (Cons c s)
  obtain m ms where sp: "splitLF s = m # ms" using splitLF_nonempty[of s] by (cases "splitLF s") auto
  show ?case using Cons sp by (auto simp: LF_def split: if_splits)
qed

lemma concat_splitLF_id: "\<forall>l \<in> set ls. LF \<notin> set l \<Longrightarrow> concat (map splitLF ls) = ls"
  by (induction ls) (simp_all add: splitLF_noLF)

lemma trimEnd_snoc_LF: "trimEnd (s @ [LF]) = trimEnd s"
  by (simp add: trimEnd_def isWhiteSpace_def LF_def)

lemma quotedLt_mono: "quotedLt False s \<Longrightarrow> quotedLt q s"
  by (induction s arbitrary: q) (auto split: if_splits)

lemma quotedLt_append: "quotedLt q a \<Longrightarrow> quotedLt False b \<Longrightarrow> quotedLt q (a @ b)"
  by (induction a arbitrary: q) (auto simp: quotedLt_mono split: if_splits)

lemma quotedLt_noLt: "CHR ''<'' \<notin> set s \<Longrightarrow> quotedLt q s"
  by (induction s arbitrary: q) auto

lemma quotedLt_True_noLF: "LF \<notin> set s \<Longrightarrow> quotedLt True s"
  by (induction s) auto

lemma hexDigit_not_LF: "d < 16 \<Longrightarrow> hexDigit d \<noteq> LF"
proof
  assume d: "d < 16" and e: "hexDigit d = LF"
  have "(of_char (hexDigit d) :: nat) \<ge> 48" using d by (simp add: hexDigit_def)
  moreover have "(of_char LF :: nat) = 10" by (simp add: LF_def)
  ultimately show False using e by simp
qed

lemma LF_notin_escapeJSONChar: "LF \<notin> set (escapeJSONChar c)"
proof -
  have "hexDigit (of_char c div 16) \<noteq> LF" if "(of_char c :: nat) < 32"
    using that by (intro hexDigit_not_LF) simp
  moreover have "hexDigit (of_char c mod 16) \<noteq> LF" by (intro hexDigit_not_LF) simp
  ultimately show ?thesis
    unfolding escapeJSONChar_def
    by (auto simp add: LF_def dquote_def backslash_def)
qed

lemma quotedLt_quoteJSONString: "quotedLt q (quoteJSONString s)"
proof -
  have "LF \<notin> set (concat (map escapeJSONChar s) @ [dquote])"
    using LF_notin_escapeJSONChar by (auto simp: LF_def dquote_def)
  then have "quotedLt True (concat (map escapeJSONChar s) @ [dquote])" by (rule quotedLt_True_noLF)
  then show ?thesis by (simp add: quoteJSONString_def LF_def dquote_def)
qed

lemma quotedLt_spaces [simp]: "quotedLt q (spaces k @ s) = quotedLt q s"
  by (induction k) (simp_all add: spaces_def LF_def dquote_def)

lemma quotedLt_showNat: "quotedLt q (showNat n)"
proof (rule quotedLt_noLt)
  show "CHR ''<'' \<notin> set (showNat n)"
    using showNat_digits[of n] by (auto simp: isDigit_iff list_all_iff)
qed

lemma quotedLt_quoted_append: "quotedLt False b \<Longrightarrow> quotedLt q (quoteJSONString s @ b)"
  by (rule quotedLt_append[OF quotedLt_quoteJSONString])

lemma quotedLt_stringify:
  "quotedLt False (stringify ind j)"
  "quotedLt False (stringifyElems ind xs)"
  "quotedLt False (stringifyMembers ind ms)"
proof (induction ind j and ind xs and ind ms rule: stringify_stringifyElems_stringifyMembers.induct)
  case (3 ind n) show ?case by (simp add: quotedLt_showNat)
next
  case (4 ind s) show ?case by (simp add: quotedLt_quoteJSONString)
next
  case (6 ind x xs)
  have "quotedLt False (stringifyElems (ind + 2) (x # xs) @ (LF # spaces ind @ '']''))"
    by (rule quotedLt_append[OF 6]) (simp add: LF_def dquote_def)
  then show ?case by (simp add: LF_def dquote_def)
next
  case (8 ind m ms)
  have "quotedLt False (stringifyMembers (ind + 2) (m # ms) @ (LF # spaces ind @ ''}''))"
    by (rule quotedLt_append[OF 8]) (simp add: LF_def dquote_def)
  then show ?case by (simp add: LF_def dquote_def)
next
  case (10 ind x) then show ?case by simp
next
  case (11 ind x y ys)
  have "quotedLt False (stringify ind x @ ('','' @ [LF] @ stringifyElems ind (y # ys)))"
    by (rule quotedLt_append[OF 11(1)]) (use 11(2) in \<open>simp add: LF_def dquote_def\<close>)
  then show ?case by simp
next
  case (13 ind k v)
  have "quotedLt False (quoteJSONString k @ ('': '' @ stringify ind v))"
    by (rule quotedLt_quoted_append) (use 13 in \<open>simp add: LF_def dquote_def\<close>)
  then show ?case by simp
next
  case (14 ind k v m ms)
  have "quotedLt False (stringify ind v @ ('','' @ [LF] @ stringifyMembers ind (m # ms)))"
    by (rule quotedLt_append[OF 14(1)]) (use 14(2) in \<open>simp add: LF_def dquote_def\<close>)
  then have "quotedLt False (quoteJSONString k @ ('': '' @ stringify ind v @ ('','' @ [LF] @ stringifyMembers ind (m # ms))))"
    by (intro quotedLt_quoted_append) (simp add: LF_def dquote_def)
  then show ?case by simp
qed (simp_all add: LF_def dquote_def)

lemma quotedLt_lines:
  "quotedLt q s \<Longrightarrow> quotedLt q (hd (splitLF s)) \<and> (\<forall>l \<in> set (tl (splitLF s)). quotedLt False l)"
proof (induction s arbitrary: q)
  case Nil then show ?case by simp
next
  case (Cons c s)
  obtain m ms where sp: "splitLF s = m # ms" using splitLF_nonempty[of s] by (cases "splitLF s") auto
  show ?case
  proof (cases "c = LF")
    case True
    then show ?thesis using Cons.IH[of False] Cons.prems sp by (auto simp: LF_def)
  next
    case False
    then have "quotedLt (if c = dquote then True else q) s" using Cons.prems by (auto split: if_splits)
    from Cons.IH[OF this] show ?thesis using False sp Cons.prems by (auto simp: LF_def split: if_splits)
  qed
qed

lemma quotedLt_all_lines: "quotedLt False s \<Longrightarrow> l \<in> set (splitLF s) \<Longrightarrow> quotedLt False l"
  using quotedLt_lines[of False s] splitLF_nonempty[of s] by (cases "splitLF s") auto

lemma quotedLt_ws_lt:
  "list_all isWhiteSpace ws \<Longrightarrow> \<not> quotedLt False (ws @ CHR ''<'' # r)"
  by (induction ws) (auto simp: isWhiteSpace_def LF_def dquote_def)

lemma trim_decompose: "\<exists>ws r. list_all isWhiteSpace ws \<and> s = ws @ trim s @ r"
proof -
  have a: "s = takeWhile isWhiteSpace s @ dropWhile isWhiteSpace s" by simp
  have b: "x = rev (dropWhile isWhiteSpace (rev x)) @ rev (takeWhile isWhiteSpace (rev x))" for x
    by (metis rev_append rev_rev_ident takeWhile_dropWhile_id)
  have "s = takeWhile isWhiteSpace s @ trim s @ rev (takeWhile isWhiteSpace (rev (dropWhile isWhiteSpace s)))"
    unfolding trim_def trimStart_def trimEnd_def using a b[of "dropWhile isWhiteSpace s"] by simp
  moreover have "list_all isWhiteSpace (takeWhile isWhiteSpace s)"
    by (simp add: list_all_iff) (meson set_takeWhileD)
  ultimately show ?thesis by blast
qed

lemma quotedLt_not_close: "quotedLt False l \<Longrightarrow> trim l \<noteq> metaCloseLine"
proof
  assume q: "quotedLt False l" and t: "trim l = metaCloseLine"
  obtain ws r where w: "list_all isWhiteSpace ws" "l = ws @ trim l @ r" using trim_decompose by blast
  have "l = ws @ CHR ''<'' # (tl metaCloseLine @ r)" using w(2) t by (simp add: metaCloseLine_def)
  then show False using quotedLt_ws_lt[OF w(1)] q by metis
qed

lemma json_lines_not_close: "l \<in> set (splitLF (JSON_stringify j)) \<Longrightarrow> trim l \<noteq> metaCloseLine"
  unfolding JSON_stringify_def
  using quotedLt_all_lines[OF quotedLt_stringify(1)] quotedLt_not_close by blast

lemma trim_JSON_metaJson: "trim (JSON_stringify (metaJson t)) = JSON_stringify (metaJson t)"
proof (rule trim_id)
  obtain m ms where j: "metaJson t = JObj (m # ms)" by (simp add: metaJson_def)
  show "JSON_stringify (metaJson t) \<noteq> []" unfolding j JSON_stringify_def by simp
  show "\<not> isWhiteSpace (hd (JSON_stringify (metaJson t)))"
    unfolding j JSON_stringify_def by (simp add: isWhiteSpace_def)
  show "\<not> isWhiteSpace (last (JSON_stringify (metaJson t)))"
    unfolding j JSON_stringify_def by (simp add: isWhiteSpace_def)
qed

lemma attrMatch_id: "attrMatch ''id'' (commentMetaLine c) = Some (escapeXmlAttr (commentId c))"
proof -
  define rest where "rest = '' author='' @ [dquote] @ escapeXmlAttr (author c) @ [dquote]
     @ '' createdAt='' @ [dquote] @ escapeXmlAttr (commentCreatedAt c) @ [dquote] @ ''/>''"
  have line: "commentMetaLine c = ''<local-code-review-comment id='' @ [dquote] @ (escapeXmlAttr (commentId c) @ dquote # rest)"
    by (simp add: commentMetaLine_def COMMENT_TAG_def rest_def)
  show ?thesis
    unfolding attrMatch_def line
    using dquote_notin_escape[of "commentId c"]
    by (simp add: dquote_def isWordChar_def isAsciiLetter_def isDigit_def takeWhile_upto[unfolded dquote_def])
qed

lemma attrMatch_createdAt:
  assumes "CHR ''='' \<notin> set (commentId c)" "CHR ''='' \<notin> set (author c)"
  shows "attrMatch ''createdAt'' (commentMetaLine c) = Some (escapeXmlAttr (commentCreatedAt c))"
proof -
  define pat where "pat = ''createdAt'' @ [CHR ''='', dquote]"
  define rest2 where "rest2 = '' createdAt='' @ [dquote] @ escapeXmlAttr (commentCreatedAt c) @ [dquote] @ ''/>''"
  define rest where "rest = '' author='' @ [dquote] @ (escapeXmlAttr (author c) @ dquote # rest2)"
  have line: "commentMetaLine c = ''<local-code-review-comment id='' @ [dquote] @ (escapeXmlAttr (commentId c) @ dquote # rest)"
    by (simp add: commentMetaLine_def COMMENT_TAG_def rest_def rest2_def)
  have noeq: "CHR ''='' \<notin> set (escapeXmlAttr (commentId c))" "CHR ''='' \<notin> set (escapeXmlAttr (author c))"
    using assms eq_in_escape by blast+
  have p: "''createdAt'' @ ''='' @ [dquote] = pat" by (simp add: pat_def)
  have skip1: "attrSearch pat False
        (''<local-code-review-comment id='' @ [dquote] @ (escapeXmlAttr (commentId c) @ dquote # rest))
      = attrSearch pat False (escapeXmlAttr (commentId c) @ dquote # rest)"
    by (simp add: pat_def dquote_def isWordChar_def isAsciiLetter_def isDigit_def)
  have skip2: "attrSearch pat False (escapeXmlAttr (commentId c) @ dquote # rest)
      = attrSearch pat
          (if escapeXmlAttr (commentId c) = [] then False else isWordChar (last (escapeXmlAttr (commentId c))))
          (dquote # rest)"
    unfolding pat_def by (rule attrSearch_skip[OF noeq(1)]) (simp_all add: dquote_def)
  have skip3: "attrSearch pat b (dquote # rest) = attrSearch pat False (escapeXmlAttr (author c) @ dquote # rest2)" for b
    unfolding rest_def
    by (simp add: pat_def dquote_def isWordChar_def isAsciiLetter_def isDigit_def)
  have skip4: "attrSearch pat False (escapeXmlAttr (author c) @ dquote # rest2)
      = attrSearch pat
          (if escapeXmlAttr (author c) = [] then False else isWordChar (last (escapeXmlAttr (author c))))
          (dquote # rest2)"
    unfolding pat_def by (rule attrSearch_skip[OF noeq(2)]) (simp_all add: dquote_def)
  have fin: "attrSearch pat b (dquote # rest2) = Some (escapeXmlAttr (commentCreatedAt c))" for b
    unfolding rest2_def pat_def
    using dquote_notin_escape[of "commentCreatedAt c"]
    by (simp add: dquote_def isWordChar_def isAsciiLetter_def isDigit_def takeWhile_upto[unfolded dquote_def])
  show ?thesis
    unfolding attrMatch_def p line skip1 skip2 skip3 skip4 fin ..
qed

lemma parseCommentAt_plain:
  assumes "plainComment c"
  shows "parseCommentAt meta idx (trim (commentMetaLine c)) bl = c\<lparr>bodyMarkdown := trimEnd (joinLF bl)\<rparr>"
proof -
  have h: "commentId c \<noteq> []" "trim (commentId c) = commentId c" "escapeXmlAttr (commentId c) = commentId c"
    "CHR ''='' \<notin> set (commentId c)" "author c \<noteq> []" "trim (author c) = author c"
    "CHR ''='' \<notin> set (author c)" "commentCreatedAt c \<noteq> []" "trim (commentCreatedAt c) = commentCreatedAt c"
    "escapeXmlAttr (commentCreatedAt c) = commentCreatedAt c"
    using assms by (simp_all add: plainComment_def)
  have "parseCommentAt meta idx (trim (commentMetaLine c)) bl
        = \<lparr>commentId = commentId c, author = author c, bodyMarkdown = trimEnd (joinLF bl),
           commentCreatedAt = commentCreatedAt c\<rparr>"
    using h by (simp add: parseCommentAt_def Let_def trim_commentMetaLine attrMatch_id
          attrMatch_author[OF h(4)] attrMatch_createdAt[OF h(4) h(7)] unescapeXmlAttr_escapeXmlAttr orElse_def)
  then show ?thesis by (cases c) simp
qed

lemma trim_hd: "s \<noteq> [] \<Longrightarrow> \<not> isWhiteSpace (hd s) \<Longrightarrow> trim s \<noteq> [] \<and> hd (trim s) = hd s"
proof -
  assume a: "s \<noteq> []" "\<not> isWhiteSpace (hd s)"
  then obtain c cs where s: "s = c # cs" by (cases s) auto
  have d: "dropWhile isWhiteSpace s = s" using a s by simp
  have "rev s = rev cs @ [c]" using s by simp
  then have "dropWhile isWhiteSpace (rev s) = dropWhile isWhiteSpace (rev cs) @ [c] \<or> dropWhile isWhiteSpace (rev s) = [c]"
    using a s by (simp add: dropWhile_append)
  then have "trimEnd s = c # rev (dropWhile isWhiteSpace (rev cs)) \<or> trimEnd s = [c]"
    by (auto simp: trimEnd_def)
  then show ?thesis using d s by (auto simp: trim_def trimStart_def)
qed

lemma not_marker_hd:
  "s \<noteq> [] \<Longrightarrow> \<not> isWhiteSpace (hd s) \<Longrightarrow> hd s \<noteq> CHR ''<'' \<Longrightarrow> \<not> isCommentMarker s \<and> \<not> isPatchMarker s"
proof -
  assume a: "s \<noteq> []" "\<not> isWhiteSpace (hd s)" "hd s \<noteq> CHR ''<''"
  obtain c cs where t: "trim s = c # cs" "c = hd s" using trim_hd[OF a(1,2)] by (cases "trim s") auto
  show ?thesis using a(3) t by (simp add: isCommentMarker_def isPatchMarker_def COMMENT_TAG_def PATCH_TAG_def)
qed

lemma empty_not_marker [simp]: "\<not> isCommentMarker []" "\<not> isPatchMarker []"
  by (simp_all add: isCommentMarker_def isPatchMarker_def trim_def trimStart_def trimEnd_def COMMENT_TAG_def PATCH_TAG_def)

lemma commentMetaLine_marker [simp]: "isCommentMarker (commentMetaLine c)" "\<not> isPatchMarker (commentMetaLine c)"
  by (simp_all add: isCommentMarker_def isPatchMarker_def trim_commentMetaLine)
     (simp_all add: commentMetaLine_def COMMENT_TAG_def PATCH_TAG_def)

lemma parseComments_Nil [simp]: "parseComments meta i [] = []"
  by (subst parseComments.simps) simp

lemma parseComments_skip1: "\<not> isCommentMarker l \<Longrightarrow> parseComments meta i (l # ls) = parseComments meta i ls"
  by (subst parseComments.simps) simp

lemma parseComments_skip:
  "\<forall>l\<in>set pre. \<not> isCommentMarker l \<Longrightarrow> parseComments meta i (pre @ ls) = parseComments meta i ls"
  by (induction pre) (simp_all add: parseComments_skip1)

lemma parseComments_dropWhile:
  "parseComments meta i (dropWhile (\<lambda>x. \<not> isCommentMarker x) ls) = parseComments meta i ls"
  by (induction ls) (simp_all add: parseComments_skip1)

lemma parseComments_marker:
  "isCommentMarker l \<Longrightarrow>
   parseComments meta i (l # [] # rest1)
     = parseCommentAt meta i (trim l) (takeWhile (\<lambda>x. \<not> isCommentMarker x) rest1)
       # parseComments meta (i + 1) rest1"
  by (subst parseComments.simps) (simp add: parseComments_dropWhile Let_def)

lemma commentLines_plain:
  "plainComment c \<Longrightarrow> commentLines c = [] # commentMetaLine c # [] # bodyLines c"
  by (simp add: commentLines_def plainComment_def bodyLines_def Let_def)

lemma bodyLines_plain:
  assumes "plainComment c"
  shows "\<forall>l\<in>set (bodyLines c). \<not> isCommentMarker l \<and> \<not> isPatchMarker l \<and> LF \<notin> set l"
    and "trimEnd (joinLF (bodyLines c @ [[]])) = bodyMarkdown c"
proof -
  show "\<forall>l\<in>set (bodyLines c). \<not> isCommentMarker l \<and> \<not> isPatchMarker l \<and> LF \<notin> set l"
    using assms splitLF_lines_noLF by (auto simp: plainComment_def bodyLines_def list_all_iff)
  show "trimEnd (joinLF (bodyLines c @ [[]])) = bodyMarkdown c"
  proof (cases "bodyMarkdown c = []")
    case True
    then show ?thesis by (simp add: bodyLines_def trimEnd_def)
  next
    case False
    have "joinLF (splitLF (bodyMarkdown c) @ [[]]) = bodyMarkdown c @ [LF]"
      by (simp add: joinLF_snoc_empty joinLF_splitLF)
    then show ?thesis using False assms by (simp add: bodyLines_def trimEnd_snoc_LF plainComment_def)
  qed
qed

lemma takeWhile_commentTail:
  "list_all plainComment cs \<Longrightarrow>
   takeWhile (\<lambda>x. \<not> isCommentMarker x) (concat (map commentLines cs) @ [[]]) = [[]]"
  by (cases cs) (simp_all add: commentLines_plain)

lemma parseComments_commentLines:
  "list_all plainComment cs \<Longrightarrow> parseComments meta i (concat (map commentLines cs) @ [[]]) = cs"
proof (induction cs arbitrary: i)
  case Nil
  show ?case by (simp add: parseComments_skip1)
next
  case (Cons c cs)
  define R where "R = concat (map commentLines cs) @ [[]]"
  have pc: "plainComment c" and pcs: "list_all plainComment cs" using Cons.prems by simp_all
  have bl: "\<forall>l\<in>set (bodyLines c). \<not> isCommentMarker l" using bodyLines_plain(1)[OF pc] by blast
  have tw: "takeWhile (\<lambda>x. \<not> isCommentMarker x) (bodyLines c @ R) = bodyLines c @ [[]]"
    using bl takeWhile_commentTail[OF pcs] by (simp add: R_def takeWhile_append2)
  have "parseComments meta i (concat (map commentLines (c # cs)) @ [[]])
        = parseComments meta i (commentMetaLine c # [] # (bodyLines c @ R))"
    by (simp add: commentLines_plain[OF pc] R_def parseComments_skip1)
  also have "\<dots> = parseCommentAt meta i (trim (commentMetaLine c)) (bodyLines c @ [[]])
        # parseComments meta (i + 1) (bodyLines c @ R)"
    by (simp add: parseComments_marker tw)
  also have "parseComments meta (i + 1) (bodyLines c @ R) = cs"
    using parseComments_skip[OF bl] Cons.IH[OF pcs] by (simp add: R_def)
  also have "parseCommentAt meta i (trim (commentMetaLine c)) (bodyLines c @ [[]]) = c"
    by (simp add: parseCommentAt_plain[OF pc] bodyLines_plain(2)[OF pc])
  finally show ?case .
qed

lemma plainLine_hd:
  "LF \<notin> set s \<Longrightarrow> s \<noteq> [] \<Longrightarrow> \<not> isWhiteSpace (hd s) \<Longrightarrow> hd s \<noteq> CHR ''<'' \<Longrightarrow> plainLine s"
  using not_marker_hd[of s] by (simp add: plainLine_def)

lemma plainLine_empty [simp]: "plainLine []"
  by (simp add: plainLine_def)

lemma LF_notin_showNat: "LF \<notin> set (showNat n)"
  using showNat_digits[of n] by (auto simp: isDigit_iff LF_def)

lemma LF_notin_formatRangeLabel: "LF \<notin> set (formatRangeLabel r)"
  using LF_notin_showNat by (cases r) (auto simp: formatRangeLabel_def Let_def LF_def)

lemma LF_notin_statusString: "LF \<notin> set (statusString st)"
  by (cases st) (auto simp: statusString_def LF_def)

lemma headerLine_plain:
  "LF \<notin> set (workspaceRelativePath (target t)) \<Longrightarrow> plainLine (''# '' @ headerLabel t)"
proof (rule plainLine_hd)
  assume "LF \<notin> set (workspaceRelativePath (target t))"
  then show "LF \<notin> set (''# '' @ headerLabel t)"
    using LF_notin_formatRangeLabel[of "targetRange (target t)"] LF_notin_statusString[of "status t"]
    by (simp add: headerLabel_def) (simp add: LF_def)
qed (simp_all add: isWhiteSpace_def)

lemma fixed_plain [simp]:
  "plainLine ''## Context''" "plainLine ''### Before''" "plainLine ''### Selection''"
  "plainLine ''### After''" "plainLine ''```text''" "plainLine ''```''" "plainLine ''## Git''"
  "plainLine ''## Patch''" "plainLine ''## Comments''" "plainLine ''```diff''"
  by (rule plainLine_hd; simp add: LF_def isWhiteSpace_def)+

lemma contextLines_plain:
  "(case ctx of None \<Rightarrow> True
    | Some c \<Rightarrow> list_all plainLine (before c @ splitLF (replaceCRLF (selection c)) @ after c))
   \<Longrightarrow> list_all plainLine (contextLines ctx)"
  by (cases ctx) (simp_all add: contextLines_def)

lemma gitLines_plain: "plainGit g \<Longrightarrow> list_all plainLine (gitLines g)"
proof (cases g)
  case None
  then show ?thesis by (simp add: gitLines_def)
next
  case (Some gg)
  assume p: "plainGit g"
  have b: "plainLine (''- baseRef: '' @ the (baseRef gg))" if "truthy (baseRef gg)"
    by (rule plainLine_hd) (use that p Some in \<open>auto simp: plainGit_def truthy_def LF_def isWhiteSpace_def split: option.splits\<close>)
  have h: "plainLine (''- hunkHeader: '' @ the (hunkHeader gg))" if "truthy (hunkHeader gg)"
    by (rule plainLine_hd) (use that p Some in \<open>auto simp: plainGit_def truthy_def LF_def isWhiteSpace_def split: option.splits\<close>)
  show ?thesis using Some b h by (simp add: gitLines_def)
qed

lemma patchMarkerLine_marker [simp]:
  "isPatchMarker patchMarkerLine" "\<not> isCommentMarker patchMarkerLine" "LF \<notin> set patchMarkerLine"
proof -
  have t: "trim patchMarkerLine = patchMarkerLine"
    by (rule trim_id) (simp_all add: patchMarkerLine_def isWhiteSpace_def)
  show "isPatchMarker patchMarkerLine" "\<not> isCommentMarker patchMarkerLine"
    unfolding isPatchMarker_def isCommentMarker_def t
    by (simp_all add: patchMarkerLine_def PATCH_TAG_def COMMENT_TAG_def)
  show "LF \<notin> set patchMarkerLine"
    by (simp add: patchMarkerLine_def PATCH_TAG_def LF_def dquote_def)
qed

lemma patchFence [simp]: "isPatchFence ''```diff''" "\<not> isPatchFence []"
  by (simp_all add: isPatchFence_def Let_def trimEnd_def trim_def trimStart_def isWhiteSpace_def)

lemma trimEnd_fence [simp]: "trimEnd ''```'' = ''```''"
  by (simp add: trimEnd_def isWhiteSpace_def)

lemma patchLines_none:
  "(case g of None \<Rightarrow> True | Some gg \<Rightarrow> hunkPatch gg = None) \<Longrightarrow> patchLines g = []"
  by (cases g) (simp_all add: patchLines_def)

lemma patchLines_some:
  "hunkPatch gg = Some p \<Longrightarrow> plainPatch p \<Longrightarrow>
   patchLines (Some gg) = [[], ''## Patch'', patchMarkerLine, [], ''```diff''] @ splitLF p @ [''```'']"
  by (simp add: patchLines_def plainPatch_def patchMarkerLine_def)

lemma extractPatch_none: "\<forall>l\<in>set ls. \<not> isPatchMarker l \<Longrightarrow> extractPatch ls = None"
proof -
  assume "\<forall>l\<in>set ls. \<not> isPatchMarker l"
  then have "dropWhile (\<lambda>l. \<not> isPatchMarker l) ls = []" by simp
  then show ?thesis unfolding extractPatch_def by (simp only: list.case)
qed

lemma extractPatch_some:
  assumes a: "\<forall>l\<in>set A. \<not> isPatchMarker l" and p: "plainPatch p"
  shows "extractPatch (A @ [[], ''## Patch'', patchMarkerLine, [], ''```diff''] @ splitLF p @ [''```''] @ post)
         = Some p"
proof -
  have np: "\<not> isPatchMarker ''## Patch''" using fixed_plain(8) by (simp add: plainLine_def)
  have d1: "dropWhile (\<lambda>l. \<not> isPatchMarker l)
              (A @ [[], ''## Patch'', patchMarkerLine, [], ''```diff''] @ splitLF p @ [''```''] @ post)
            = patchMarkerLine # [] # ''```diff'' # (splitLF p @ ''```'' # post)"
    using a np by (simp add: dropWhile_append3)
  have d2: "dropWhile (\<lambda>l. \<not> isPatchFence l) ([] # ''```diff'' # (splitLF p @ ''```'' # post))
            = ''```diff'' # (splitLF p @ ''```'' # post)"
    by simp
  have all: "\<forall>l\<in>set (splitLF p). trimEnd l \<noteq> ''```''" using p by (simp add: plainPatch_def list_all_iff)
  have t: "takeWhile (\<lambda>l. trimEnd l \<noteq> ''```'') (splitLF p @ ''```'' # post) = splitLF p"
    using all by (simp add: takeWhile_append2 del: splitLF.simps)
  have pp: "trimEnd p = p" "p \<noteq> []" using p by (simp_all add: plainPatch_def)
  show ?thesis
    unfolding extractPatch_def d1 list.case d2 t Let_def joinLF_splitLF pp
    using pp(2) by simp
qed

lemma mergePatch_storedMeta:
  assumes "plainGit (anchorGit (anchor (target t)))"
    and "pt = (case anchorGit (anchor (target t)) of None \<Rightarrow> None | Some gg \<Rightarrow> hunkPatch gg)"
  shows "mergePatch (storedMeta t) pt = PersistedThreadMeta.truncate t"
proof -
  obtain p r a where tg: "target t = \<lparr>workspaceRelativePath = p, targetRange = r, anchor = a\<rparr>"
    by (cases "target t") auto
  obtain c g where an: "a = \<lparr>anchorContext = c, anchorGit = g\<rparr>" by (cases a) auto
  have pg: "plainGit g" using assms(1) tg an by simp
  have pt: "pt = (case g of None \<Rightarrow> None | Some gg \<Rightarrow> hunkPatch gg)" using assms(2) tg an by simp
  have "(case pt of
          None \<Rightarrow> metaGit g
        | Some q \<Rightarrow> Some ((case metaGit g of Some x \<Rightarrow> x
                            | None \<Rightarrow> \<lparr>baseRef = None, hunkHeader = None, hunkPatch = None\<rparr>)\<lparr>hunkPatch := Some q\<rparr>)) = g"
  proof (cases g)
    case None
    then show ?thesis using pt by (simp add: metaGit_def)
  next
    case (Some gg)
    obtain b h q where gg: "gg = \<lparr>baseRef = b, hunkHeader = h, hunkPatch = q\<rparr>" by (cases gg) auto
    show ?thesis using pg pt Some gg
      by (cases q) (auto simp: metaGit_def plainGit_def)
  qed
  then show ?thesis
    unfolding mergePatch_def storedMeta_def tg an
    by (cases pt) (simp_all add: PersistedThreadMeta.truncate_def Let_def tg an)
qed

lemma extend_truncate:
  "PersistedThreadMeta.extend (PersistedThreadMeta.truncate t) (PersistedThread.fields (comments t)) = (t :: PersistedThread)"
  by (cases t) (simp add: PersistedThreadMeta.truncate_def PersistedThreadMeta.extend_def PersistedThread.fields_def)

lemma LF_notin_commentMetaLine: "plainComment c \<Longrightarrow> LF \<notin> set (commentMetaLine c)"
  using LF_in_escape[of "commentId c"] LF_in_escape[of "author c"] LF_in_escape[of "commentCreatedAt c"]
  by (auto simp: commentMetaLine_def plainComment_def COMMENT_TAG_def LF_def dquote_def)

lemma commentLines_lines:
  assumes "list_all plainComment cs"
  shows "\<forall>l\<in>set (concat (map commentLines cs)). LF \<notin> set l \<and> \<not> isPatchMarker l"
proof -
  have "\<forall>l\<in>set (commentLines c). LF \<notin> set l \<and> \<not> isPatchMarker l" if "plainComment c" for c
    using bodyLines_plain(1)[OF that] LF_notin_commentMetaLine[OF that]
    by (auto simp: commentLines_plain[OF that])
  then show ?thesis using assms by (auto simp: list_all_iff)
qed

lemma patchLines_plain:
  assumes "plainGit g"
  shows "\<forall>l\<in>set (patchLines g). LF \<notin> set l \<and> \<not> isCommentMarker l"
proof (cases "case g of None \<Rightarrow> None | Some gg \<Rightarrow> hunkPatch gg")
  case None
  then have "patchLines g = []" by (intro patchLines_none) (auto split: option.splits)
  then show ?thesis by simp
next
  case (Some p)
  then obtain gg where g: "g = Some gg" "hunkPatch gg = Some p" by (auto split: option.splits)
  have pp: "plainPatch p" using assms g by (simp add: plainGit_def)
  have "\<forall>l\<in>set (splitLF p). LF \<notin> set l \<and> \<not> isCommentMarker l"
    using pp splitLF_lines_noLF by (auto simp: plainPatch_def list_all_iff)
  moreover have "LF \<notin> set ''## Patch'' \<and> \<not> isCommentMarker ''## Patch''"
    "LF \<notin> set ''```diff'' \<and> \<not> isCommentMarker ''```diff''"
    "LF \<notin> set ''```'' \<and> \<not> isCommentMarker ''```''"
    using fixed_plain(8,10,6) by (simp_all add: plainLine_def)
  ultimately show ?thesis
    unfolding g(1) patchLines_some[OF g(2) pp] by (auto simp del: splitLF.simps)
qed

lemma extractPatch_rest:
  assumes "plainGit g" and "\<forall>l\<in>set A. \<not> isPatchMarker l" and "\<forall>l\<in>set B. \<not> isPatchMarker l"
  shows "extractPatch (A @ patchLines g @ B) = (case g of None \<Rightarrow> None | Some gg \<Rightarrow> hunkPatch gg)"
proof (cases "case g of None \<Rightarrow> None | Some gg \<Rightarrow> hunkPatch gg")
  case None
  then have "patchLines g = []" by (intro patchLines_none) (auto split: option.splits)
  moreover have "extractPatch (A @ B) = None" by (rule extractPatch_none) (use assms(2,3) in auto)
  ultimately show ?thesis using None by simp
next
  case (Some p)
  then obtain gg where g: "g = Some gg" "hunkPatch gg = Some p" by (auto split: option.splits)
  have pp: "plainPatch p" using assms g by (simp add: plainGit_def)
  have "extractPatch (A @ [[], ''## Patch'', patchMarkerLine, [], ''```diff''] @ splitLF p @ [''```''] @ B) = Some p"
    by (rule extractPatch_some[OF assms(2) pp])
  then show ?thesis unfolding g(1) patchLines_some[OF g(2) pp] using g(2) by simp
qed

lemma trim_metaLines [simp]:
  "trim metaOpenLine = metaOpenLine" "trim metaCloseLine = metaCloseLine"
  "LF \<notin> set metaOpenLine" "LF \<notin> set metaCloseLine"
proof -
  show "trim metaOpenLine = metaOpenLine"
    by (rule trim_id) (simp_all add: metaOpenLine_def THREAD_META_TAG_def isWhiteSpace_def)
  show "trim metaCloseLine = metaCloseLine"
    by (rule trim_id) (simp_all add: metaCloseLine_def THREAD_META_TAG_def isWhiteSpace_def)
  show "LF \<notin> set metaOpenLine" "LF \<notin> set metaCloseLine"
    by (simp_all add: metaOpenLine_def metaCloseLine_def THREAD_META_TAG_def LF_def)
qed

lemma parseThreadMarkdown_serialize:
  assumes "plainThread t"
  shows "parseThreadMarkdown now (serializeThreadMarkdown t) = Some t"
proof -
  define g where "g = anchorGit (anchor (target t))"
  define J where "J = JSON_stringify (metaJson t)"
  define A where "A = [[], ''# '' @ headerLabel t] @ contextLines (anchorContext (anchor (target t))) @ gitLines g"
  define C where "C = concat (map commentLines (comments t))"
  define B where "B = [[], ''## Comments''] @ C @ [[]]"
  define rest where "rest = A @ patchLines g @ B"
  have h: "trim (threadId t) \<noteq> []" "trim (workspaceRelativePath (target t)) \<noteq> []"
    "LF \<notin> set (workspaceRelativePath (target t))"
    "case anchorContext (anchor (target t)) of None \<Rightarrow> True
      | Some c \<Rightarrow> list_all plainLine (before c @ splitLF (replaceCRLF (selection c)) @ after c)"
    "plainGit g" "list_all plainComment (comments t)"
    "replaceCRLF (serializeThreadMarkdown t) = serializeThreadMarkdown t"
    using assms by (simp_all add: plainThread_def g_def)
  have A_plain: "list_all plainLine A"
    using headerLine_plain[OF h(3)] contextLines_plain[OF h(4)] gitLines_plain[OF h(5)]
    by (simp add: A_def)
  have C_lines: "\<forall>l\<in>set C. LF \<notin> set l \<and> \<not> isPatchMarker l"
    unfolding C_def by (rule commentLines_lines[OF h(6)])
  have cm: "LF \<notin> set ''## Comments''" "\<not> isCommentMarker ''## Comments''" "\<not> isPatchMarker ''## Comments''"
    using fixed_plain(9) by (simp_all add: plainLine_def)
  have B_lines: "\<forall>l\<in>set B. LF \<notin> set l \<and> \<not> isPatchMarker l"
    using C_lines cm by (auto simp: B_def)
  have rest_noLF: "\<forall>l\<in>set rest. LF \<notin> set l"
    using A_plain B_lines patchLines_plain[OF h(5)] by (auto simp: rest_def list_all_iff plainLine_def)
  have sl: "serializeLines t @ [[]] = metaOpenLine # J # metaCloseLine # rest"
    by (simp add: serializeLines_def rest_def A_def B_def C_def g_def J_def)
  have "serializeLines t \<noteq> []" by (simp add: serializeLines_def)
  then have doc: "serializeThreadMarkdown t = joinLF (metaOpenLine # J # metaCloseLine # rest)"
    unfolding serializeThreadMarkdown_def using joinLF_snoc_empty[of "serializeLines t"] sl by simp
  have "splitLF (serializeThreadMarkdown t)
        = concat (map splitLF (metaOpenLine # J # metaCloseLine # rest))"
    unfolding doc by (rule splitLF_joinLF) simp
  also have "\<dots> = metaOpenLine # splitLF J @ metaCloseLine # rest"
    using concat_splitLF_id[OF rest_noLF] by (simp add: splitLF_noLF del: splitLF.simps)
  finally have lines: "splitLF (replaceCRLF (serializeThreadMarkdown t))
        = metaOpenLine # splitLF J @ metaCloseLine # rest"
    unfolding h(7) .
  have d0: "dropWhile (\<lambda>l. trim l \<noteq> metaOpenLine) (metaOpenLine # splitLF J @ metaCloseLine # rest)
            = metaOpenLine # (splitLF J @ metaCloseLine # rest)"
    by simp
  have jl: "\<forall>l\<in>set (splitLF J). trim l \<noteq> metaCloseLine"
    unfolding J_def using json_lines_not_close by blast
  have tk: "takeWhile (\<lambda>l. trim l \<noteq> metaCloseLine) (splitLF J @ metaCloseLine # rest) = splitLF J"
    using jl by (simp add: takeWhile_append2 del: splitLF.simps)
  have dk: "dropWhile (\<lambda>l. trim l \<noteq> metaCloseLine) (splitLF J @ metaCloseLine # rest) = metaCloseLine # rest"
    using jl by (simp add: dropWhile_append3 del: splitLF.simps)
  have jp: "JSON_parse (trim (joinLF (splitLF J))) = Some (map_json of_nat (metaJson t))"
    unfolding joinLF_splitLF J_def trim_JSON_metaJson by (rule JSON_parse_stringify)
  have pm: "parsePersistedThreadMeta now (Some (map_json of_nat (metaJson t))) = Some (storedMeta t)"
    by (rule parsePersistedThreadMeta_metaJson[OF h(1,2)])
  have A_np: "\<forall>l\<in>set A. \<not> isPatchMarker l" "\<forall>l\<in>set A. \<not> isCommentMarker l"
    using A_plain by (auto simp: list_all_iff plainLine_def)
  have B_np: "\<forall>l\<in>set B. \<not> isPatchMarker l" using B_lines by blast
  have ep: "extractPatch rest = (case g of None \<Rightarrow> None | Some gg \<Rightarrow> hunkPatch gg)"
    unfolding rest_def by (rule extractPatch_rest[OF h(5) A_np(1) B_np])
  have mp: "mergePatch (storedMeta t) (extractPatch rest) = PersistedThreadMeta.truncate t"
    by (rule mergePatch_storedMeta) (use h(5) ep in \<open>simp_all add: g_def\<close>)
  have pre: "\<forall>l\<in>set (A @ patchLines g @ [[], ''## Comments'']). \<not> isCommentMarker l"
    using A_np(2) patchLines_plain[OF h(5)] cm(2) by auto
  have "parseComments m 0 rest = parseComments m 0 (C @ [[]])" for m
    using parseComments_skip[OF pre, of m 0 "C @ [[]]"] by (simp add: rest_def B_def)
  then have pc: "parseComments m 0 rest = comments t" for m
    using parseComments_commentLines[OF h(6)] by (simp add: C_def)
  show ?thesis
    unfolding parseThreadMarkdown_def Let_def lines d0 list.case tk dk jp option.case pm mp pc extend_truncate ..
qed

lemma trimEnd_idem: "trimEnd (trimEnd s) = trimEnd s"
  by (simp add: trimEnd_def dropWhile_idem)

lemma commentLines_trimEnd: "commentLines (c\<lparr>bodyMarkdown := trimEnd (bodyMarkdown c)\<rparr>) = commentLines c"
  by (simp add: commentLines_def commentMetaLine_def trimEnd_idem)

lemma serialize_trimBodies: "serializeThreadMarkdown (trimBodies t) = serializeThreadMarkdown t"
proof -
  have "metaJson (trimBodies t) = metaJson t" "headerLabel (trimBodies t) = headerLabel t"
    by (simp_all add: metaJson_def headerLabel_def trimBodies_def)
  then show ?thesis
    by (simp add: serializeThreadMarkdown_def serializeLines_def)
       (simp add: trimBodies_def comp_def commentLines_trimEnd)
qed

lemma parse_serialize_trimBodies:
  assumes "plainThread (trimBodies t)"
  shows "parseThreadMarkdown now (serializeThreadMarkdown t) = Some (trimBodies t)"
  using parseThreadMarkdown_serialize[OF assms, of now] by (simp add: serialize_trimBodies)

lemma trimBodies_id:
  "\<forall>c\<in>set (comments t). trimEnd (bodyMarkdown c) = bodyMarkdown c \<Longrightarrow> trimBodies t = t"
proof -
  assume a: "\<forall>c\<in>set (comments t). trimEnd (bodyMarkdown c) = bodyMarkdown c"
  have "map (\<lambda>c. c\<lparr>bodyMarkdown := trimEnd (bodyMarkdown c)\<rparr>) (comments t) = comments t"
    using a by (induction "comments t") (simp_all add: map_idI)
  then show ?thesis by (simp add: trimBodies_def)
qed

subsection \<open>Round trip of a thread file\<close>

lemma storedMeta_no_patch:
  "(case anchorGit (anchor (target (storedMeta t))) of None \<Rightarrow> True | Some gg \<Rightarrow> hunkPatch gg = None)"
  by (simp add: storedMeta_def metaGit_def split: option.splits)

lemma exFull_plain: "plainThread (trimBodies exFull)"
  by code_simp

lemma exThread_plain: "plainThread exThread"
  by code_simp

text \<open>
  C1, as the code has it. The file written for a thread is read back as the thread with
  the white space at the end of every comment body removed, provided that thread is
  plain in the sense of \<open>plainThread\<close>; a plain thread is read back as it is, its patch
  included. The metadata block of the file is the object \<open>metaJson\<close>, which reads back
  as \<open>storedMeta\<close>, and that holds no patch.
\<close>

theorem thread_round_trip:
  "(plainThread (trimBodies t) \<longrightarrow>
      parseThreadMarkdown now (serializeThreadMarkdown t) = Some (trimBodies t))
   \<and> (plainThread t \<longrightarrow> parseThreadMarkdown now (serializeThreadMarkdown t) = Some t)
   \<and> (trim (threadId t) \<noteq> [] \<and> trim (workspaceRelativePath (target t)) \<noteq> [] \<longrightarrow>
        parsePersistedThreadMeta now (JSON_parse (JSON_stringify (metaJson t))) = Some (storedMeta t))
   \<and> (case anchorGit (anchor (target (storedMeta t))) of None \<Rightarrow> True | Some gg \<Rightarrow> hunkPatch gg = None)"
proof -
  have 1: "plainThread (trimBodies t) \<longrightarrow>
      parseThreadMarkdown now (serializeThreadMarkdown t) = Some (trimBodies t)"
    using parse_serialize_trimBodies by blast
  have 2: "plainThread t \<longrightarrow> parseThreadMarkdown now (serializeThreadMarkdown t) = Some t"
    using parseThreadMarkdown_serialize by blast
  have 3: "trim (threadId t) \<noteq> [] \<and> trim (workspaceRelativePath (target t)) \<noteq> [] \<longrightarrow>
        parsePersistedThreadMeta now (JSON_parse (JSON_stringify (metaJson t))) = Some (storedMeta t)"
    by (simp add: JSON_parse_stringify parsePersistedThreadMeta_metaJson)
  from 1 2 3 storedMeta_no_patch[of t] show ?thesis by blast
qed

theorem thread_round_trip_witness:
  "plainThread (trimBodies exFull)
   \<and> parseThreadMarkdown ''now'' (serializeThreadMarkdown exFull) = Some (trimBodies exFull)
   \<and> map_option hunkPatch (anchorGit (anchor (target (trimBodies exFull)))) = Some (Some (''-a'' @ [LF] @ ''+b''))
   \<and> map bodyMarkdown (comments (trimBodies exFull)) = [''one'' @ [LF, LF] @ ''two'', []]
   \<and> plainThread exThread
   \<and> parseThreadMarkdown ''now'' (serializeThreadMarkdown exThread) = Some exThread
   \<and> trim (threadId exFull) \<noteq> [] \<and> trim (workspaceRelativePath (target exFull)) \<noteq> []
   \<and> parsePersistedThreadMeta ''now'' (JSON_parse (JSON_stringify (metaJson exFull))) = Some (storedMeta exFull)
   \<and> map_option hunkPatch (anchorGit (anchor (target (storedMeta exFull)))) = Some None"
proof -
  have 1: "parseThreadMarkdown ''now'' (serializeThreadMarkdown exFull) = Some (trimBodies exFull)"
    using thread_round_trip[of exFull "''now''"] exFull_plain by blast
  have 2: "parseThreadMarkdown ''now'' (serializeThreadMarkdown exThread) = Some exThread"
    using thread_round_trip[of exThread "''now''"] exThread_plain by blast
  have h: "trim (threadId exFull) \<noteq> []" "trim (workspaceRelativePath (target exFull)) \<noteq> []"
    by code_simp+
  have 3: "parsePersistedThreadMeta ''now'' (JSON_parse (JSON_stringify (metaJson exFull))) = Some (storedMeta exFull)"
    using thread_round_trip[of exFull "''now''"] h by blast
  have e: "map_option hunkPatch (anchorGit (anchor (target (trimBodies exFull)))) = Some (Some (''-a'' @ [LF] @ ''+b''))"
    "map bodyMarkdown (comments (trimBodies exFull)) = [''one'' @ [LF, LF] @ ''two'', []]"
    "map_option hunkPatch (anchorGit (anchor (target (storedMeta exFull)))) = Some None"
    by code_simp+
  from exFull_plain 1 e(1,2) exThread_plain 2 h 3 e(3) show ?thesis by blast
qed

text \<open>
  The claim as written fails for a comment whose body ends with a line feed: the file
  holds the body without it, and so does the thread read back.
\<close>

theorem thread_round_trip_counterexample:
  "map bodyMarkdown (comments exTrailing) = [''hi'' @ [LF]]
   \<and> map_option (map bodyMarkdown \<circ> comments)
        (parseThreadMarkdown ''now'' (serializeThreadMarkdown exTrailing)) = Some [''hi'']
   \<and> parseThreadMarkdown ''now'' (serializeThreadMarkdown exTrailing) \<noteq> Some exTrailing"
  unfolding exTrailing_def exMeta_def by code_simp

text \<open>
  C7, as the code has it. Writing the thread that was read back from the file written
  for a thread gives that file again, provided the thread with the white space at the
  end of its comment bodies removed is plain in the sense of \<open>plainThread\<close>.
\<close>

theorem serialize_idempotent:
  "plainThread (trimBodies t) \<Longrightarrow>
   map_option serializeThreadMarkdown (parseThreadMarkdown now (serializeThreadMarkdown t))
     = Some (serializeThreadMarkdown t)"
  by (simp add: parse_serialize_trimBodies serialize_trimBodies)

theorem serialize_idempotent_witness:
  "plainThread (trimBodies exFull)
   \<and> map_option serializeThreadMarkdown (parseThreadMarkdown ''now'' (serializeThreadMarkdown exFull))
     = Some (serializeThreadMarkdown exFull)"
  using serialize_idempotent[of exFull "''now''"] exFull_plain by simp

text \<open>
  The claim as written fails for an author with a space in front: the file written for
  the thread holds the author \<open>" Bob"\<close>, the thread read back has the author \<open>"Bob"\<close>,
  and the file written for that differs.
\<close>

theorem serialize_idempotent_counterexample:
  "map_option serializeThreadMarkdown (parseThreadMarkdown ''now'' (serializeThreadMarkdown exCommented))
     \<noteq> Some (serializeThreadMarkdown exCommented)"
  unfolding exCommented_def exMeta_def by code_simp

section \<open>Properties of the review store\<close>






















end
